theory Spec2Isabelle
  imports Main "HOL-Library.Word" "HOL-Library.Sublist"
begin

unbundle bit_operations_syntax

section \<open>Bytes, typed arrays and errors\<close>

text \<open>
  A \<^verbatim>\<open>Uint8Array\<close> is a list of 8-bit words. JavaScript numbers that hold integers are
  \<^typ>\<open>int\<close> or \<^typ>\<open>nat\<close>; wherever the source applies a bitwise operator
  (\<^verbatim>\<open>&\<close>, \<^verbatim>\<open>|\<close>, \<^verbatim>\<open><<\<close>, \<^verbatim>\<open>>>\<close>) the operand is first converted to a signed
  32-bit integer, which is modelled by \<^typ>\<open>32 word\<close> read back with \<^const>\<open>sint\<close>.
  Every \<^verbatim>\<open>throw\<close> of the source, and the \<^verbatim>\<open>RangeError\<close> a \<^verbatim>\<open>DataView\<close> raises on an
  out-of-bounds read, is a constructor of \<open>error\<close>.
\<close>

type_synonym byte = "8 word"
type_synonym bytes = "8 word list"

datatype error =
    InvalidOBU                \<comment> \<open>\<^verbatim>\<open>'Invalid OBU: forbidden bit is set'\<close>\<close>
  | UnexpectedEndOfData       \<comment> \<open>\<^verbatim>\<open>'Unexpected end of data while reading LEB128'\<close>\<close>
  | Leb128TooLarge            \<comment> \<open>\<^verbatim>\<open>'LEB128 value too large'\<close>\<close>
  | NoSequenceHeader          \<comment> \<open>\<^verbatim>\<open>'No sequence header found'\<close>\<close>
  | NoFrameData               \<comment> \<open>\<^verbatim>\<open>'No frame data found'\<close>\<close>
  | MissingBox string         \<comment> \<open>\<^verbatim>\<open>'No meta box found'\<close> and its two siblings\<close>
  | InvalidCodecConfig        \<comment> \<open>\<^verbatim>\<open>'Invalid AV1 codec configuration'\<close>\<close>
  | RangeError                \<comment> \<open>raised by the runtime: \<^verbatim>\<open>DataView\<close> read or array length out of range\<close>

text \<open>
  \<^verbatim>\<open>data[i]\<close>: an index outside the array gives \<^verbatim>\<open>undefined\<close>. Every use of such a read
  that is modelled through \<open>byte_at\<close> goes into a bitwise operator or into
  \<^verbatim>\<open>String.fromCharCode\<close>, both of which turn \<^verbatim>\<open>undefined\<close> into 0.
\<close>

definition byte_at :: "bytes \<Rightarrow> int \<Rightarrow> byte" where
  "byte_at data i = (if 0 \<le> i \<and> i < int (length data) then data ! nat i else 0)"

text \<open>
  \<^verbatim>\<open>Uint8Array.prototype.slice(start, end)\<close>: a negative bound counts from the end, both
  bounds are clamped to the array, and an empty range gives an empty array.
\<close>

definition slice_int :: "bytes \<Rightarrow> int \<Rightarrow> int \<Rightarrow> bytes" where
  "slice_int data start end =
     (let len = int (length data);
          k = (if start < 0 then max (len + start) 0 else min start len);
          fin = (if end < 0 then max (len + end) 0 else min end len)
      in take (nat (fin - k)) (drop (nat k) data))"

definition slice_nat :: "bytes \<Rightarrow> nat \<Rightarrow> nat \<Rightarrow> bytes" where
  "slice_nat data start end = slice_int data (int start) (int end)"

text \<open>\<^verbatim>\<open>DataView.getUint16\<close> and \<^verbatim>\<open>getUint32\<close>, big-endian, with the bounds check.\<close>

definition getUint16 :: "bytes \<Rightarrow> nat \<Rightarrow> error + nat" where
  "getUint16 data off =
     (if off + 2 > length data then Inl RangeError
      else Inr (unat (data ! off) * 256 + unat (data ! (off + 1))))"

definition getUint32 :: "bytes \<Rightarrow> nat \<Rightarrow> error + nat" where
  "getUint32 data off =
     (if off + 4 > length data then Inl RangeError
      else Inr (unat (data ! off) * 16777216 + unat (data ! (off + 1)) * 65536
                + unat (data ! (off + 2)) * 256 + unat (data ! (off + 3))))"

text \<open>Sequencing of computations that may throw.\<close>

definition bindE :: "error + 'a \<Rightarrow> ('a \<Rightarrow> error + 'b) \<Rightarrow> error + 'b" where
  "bindE m f = (case m of Inl e \<Rightarrow> Inl e | Inr x \<Rightarrow> f x)"

text \<open>
  Numbers above \<open>2 ^ 53\<close>. A JavaScript number is a double: an integer below \<open>2 ^ 53\<close> is
  held exactly, a larger one is rounded to 53 significant bits, to nearest with ties to
  the even significand. \<open>round_double n\<close> is the double nearest to the integer \<open>n\<close>, and
  \<open>num_add\<close> is the \<^verbatim>\<open>+\<close> of the source on two integers that are doubles. They are used
  wherever the source adds numbers that can reach \<open>2 ^ 53\<close>, which are those built from
  64-bit fields of the file. The sum of a position inside an array and a value below
  \<open>2 ^ 32\<close> is written with \<open>+\<close>: it is exact for every array of fewer than
  \<open>2 ^ 53 - 2 ^ 32\<close> bytes.
\<close>

fun bit_length :: "nat \<Rightarrow> nat" where
  "bit_length n = (if n = 0 then 0 else Suc (bit_length (n div 2)))"

declare bit_length.simps [simp del]

definition round_double :: "nat \<Rightarrow> nat" where
  "round_double n =
     (if n < 2 ^ 53 then n
      else
        let e = bit_length n - 53;
            q = n div 2 ^ e;
            r = n mod 2 ^ e;
            half = 2 ^ (e - 1)
        in if r < half \<or> (r = half \<and> even q) then q * 2 ^ e else (q + 1) * 2 ^ e)"

definition num_add :: "nat \<Rightarrow> nat \<Rightarrow> nat" where
  "num_add a b = round_double (a + b)"

text \<open>\<^verbatim>\<open>String.fromCharCode\<close> on byte values, and \<^verbatim>\<open>String.prototype.includes\<close>.\<close>

definition fromCharCode :: "bytes \<Rightarrow> string" where
  "fromCharCode bs = map (\<lambda>b. char_of (unat b)) bs"

fun str_includes :: "string \<Rightarrow> string \<Rightarrow> bool" where
  "str_includes [] sub = (sub = [])"
| "str_includes (c # cs) sub = (prefix sub (c # cs) \<or> str_includes cs sub)"

text \<open>
  \<^verbatim>\<open>String.prototype.toLowerCase\<close> on the characters \<^verbatim>\<open>fromCharCode\<close> can produce
  (U+0000 to U+00FF): the ASCII capitals and the Latin-1 capitals except the
  multiplication sign move up by 32.
\<close>

definition toLowerChar :: "char \<Rightarrow> char" where
  "toLowerChar c =
     (let n = (of_char c :: nat)
      in if (65 \<le> n \<and> n \<le> 90) \<or> (192 \<le> n \<and> n \<le> 222 \<and> n \<noteq> 215)
         then char_of (n + 32) else c)"

definition toLowerCase :: "string \<Rightarrow> string" where
  "toLowerCase s = map toLowerChar s"

section \<open>OBU framing (\<^verbatim>\<open>av1/obu.ts\<close>)\<close>

record AV1OBU =
  obu_type :: nat
  obu_size :: int
  obu_data :: bytes

text \<open>The \<^verbatim>\<open>OBUType\<close> values the decoder looks for.\<close>

definition SEQUENCE_HEADER :: nat where "SEQUENCE_HEADER = 1"
definition FRAME :: nat where "FRAME = 6"

text \<open>
  \<^verbatim>\<open>readLeb128\<close>: a do-while loop. \<^verbatim>\<open>value |= (byte & 0x7F) << (bytes * 7)\<close> works on
  signed 32-bit integers and takes the shift count modulo 32. The loop runs at most
  eight times, because the ninth increment of \<^verbatim>\<open>bytes\<close> throws.
\<close>

function readLeb128_loop :: "bytes \<Rightarrow> int \<Rightarrow> 32 word \<Rightarrow> nat \<Rightarrow> error + (int \<times> nat)" where
  "readLeb128_loop data offset v bytes =
     (if offset + int bytes \<ge> int (length data) then Inl UnexpectedEndOfData
      else
        let byte = byte_at data (offset + int bytes);
            v' = v OR push_bit ((bytes * 7) mod 32) (ucast (byte AND 0x7F));
            bytes' = bytes + 1
        in if bytes' > 8 then Inl Leb128TooLarge
           else if byte AND 0x80 \<noteq> 0 then readLeb128_loop data offset v' bytes'
           else Inr (sint v', bytes'))"
  by pat_completeness auto
termination
  by (relation "measure (\<lambda>(d, off, v, b). 9 - b)") auto

declare readLeb128_loop.simps [simp del]

definition readLeb128 :: "bytes \<Rightarrow> int \<Rightarrow> error + (int \<times> nat)" where
  "readLeb128 data offset = readLeb128_loop data offset 0 0"

text \<open>
  \<^verbatim>\<open>writeLeb128\<close>: a do-while loop whose exit test is \<^verbatim>\<open>value !== 0\<close> after
  \<^verbatim>\<open>value >>= 7\<close>, a sign-propagating shift of the 32-bit conversion of the number. The
  loop has no bound of its own, so the result is optional: \<open>None\<close> is the run that never
  leaves the loop and returns no bytes (in a runtime it ends when the growing array is
  refused).
\<close>

partial_function (option) writeLeb128_loop :: "32 word \<Rightarrow> bytes \<Rightarrow> bytes option" where
  "writeLeb128_loop v bytes =
     (let byte = v AND 0x7F;
          v' = signed_drop_bit 7 v;
          byte' = (if v' \<noteq> 0 then byte OR 0x80 else byte);
          bytes' = bytes @ [ucast byte']
      in if v' \<noteq> 0 then writeLeb128_loop v' bytes' else Some bytes')"

declare writeLeb128_loop.simps [code]

definition writeLeb128 :: "int \<Rightarrow> bytes option" where
  "writeLeb128 v = writeLeb128_loop (word_of_int v) []"

text \<open>
  The bytes the loop emits for a non-negative 32-bit value, as a total function; it is
  used to state what \<open>writeLeb128\<close> returns, not to define it.
\<close>

function leb_bytes :: "32 word \<Rightarrow> bytes" where
  "leb_bytes w = (if drop_bit 7 w = 0 then [ucast (w AND 0x7F)]
                  else ucast (w AND 0x7F OR 0x80) # leb_bytes (drop_bit 7 w))"
  by pat_completeness auto
termination
proof (relation "measure unat")
  show "wf (measure unat)" by (rule wf_measure)
next
  fix w :: "32 word"
  assume "drop_bit 7 w \<noteq> 0"
  have u: "unat (drop_bit 7 w) = unat w div 128"
  proof -
    have "unat (drop_bit 7 w) = drop_bit 7 (unat w)" by (rule unat_drop_bit_eq)
    also have "\<dots> = unat w div 2 ^ 7" by (rule drop_bit_eq_div)
    finally show ?thesis by simp
  qed
  have "unat (drop_bit 7 w) \<noteq> 0" using \<open>drop_bit 7 w \<noteq> 0\<close> by (metis unsigned_eq_0_iff)
  then have "unat w div 128 \<noteq> 0" by (metis u)
  then have "unat w div 128 < unat w" by (intro div_less_dividend) auto
  then have "unat (drop_bit 7 w) < unat w" by (metis u)
  then show "(drop_bit 7 w, w) \<in> measure unat" by (simp only: in_measure)
qed

declare leb_bytes.simps [simp del]

text \<open>
  \<^verbatim>\<open>parseOBU\<close>. The result \<open>Inr None\<close> is the \<^verbatim>\<open>null\<close> returned at the end of the data.
  \<^verbatim>\<open>parseOBUs\<close> can call it with a negative offset (a negative size read from a LEB128
  field moves the cursor backwards); the header byte is then \<^verbatim>\<open>undefined\<close>.
\<close>

definition parseOBU :: "bytes \<Rightarrow> int \<Rightarrow> error + AV1OBU option" where
  "parseOBU data offset =
     (if offset \<ge> int (length data) then Inr None
      else
        let header = byte_at data offset
        in if header AND 0x80 \<noteq> 0 then Inl InvalidOBU
           else
             let ty = unat (drop_bit 3 header AND 0x0F);
                 hasExtension = (header AND 0x04 \<noteq> 0);
                 hasSizeField = (header AND 0x02 \<noteq> 0);
                 headerSize = (if hasExtension then 2 else 1 :: int)
             in if hasSizeField then
                  (case readLeb128 data (offset + headerSize) of
                     Inl e \<Rightarrow> Inl e
                   | Inr (payloadSize, bytes) \<Rightarrow>
                       let headerSize' = headerSize + int bytes;
                           totalSize = headerSize' + payloadSize
                       in Inr (Some \<lparr>obu_type = ty, obu_size = totalSize,
                                     obu_data = slice_int data (offset + headerSize') (offset + totalSize)\<rparr>))
                else
                  let payloadSize = int (length data) - offset - headerSize;
                      totalSize = headerSize + payloadSize
                  in Inr (Some \<lparr>obu_type = ty, obu_size = totalSize,
                                obu_data = slice_int data (offset + headerSize) (offset + totalSize)\<rparr>))"

text \<open>
  \<^verbatim>\<open>parseOBUs\<close>: \<^verbatim>\<open>while (offset < data.length)\<close> with \<^verbatim>\<open>offset += obu.size\<close>. Nothing
  in the loop forces \<^verbatim>\<open>obu.size\<close> to be positive, so the result is optional.
\<close>

partial_function (option) parseOBUs_loop ::
  "bytes \<Rightarrow> int \<Rightarrow> AV1OBU list \<Rightarrow> (error + AV1OBU list) option" where
  "parseOBUs_loop data offset obus =
     (if offset < int (length data) then
        (case parseOBU data offset of
           Inl e \<Rightarrow> Some (Inl e)
         | Inr None \<Rightarrow> Some (Inr obus)
         | Inr (Some obu) \<Rightarrow> parseOBUs_loop data (offset + obu_size obu) (obus @ [obu]))
      else Some (Inr obus))"

declare parseOBUs_loop.simps [code]

definition parseOBUs :: "bytes \<Rightarrow> (error + AV1OBU list) option" where
  "parseOBUs data = parseOBUs_loop data 0 []"

text \<open>
  \<^verbatim>\<open>createOBU(type, payload, {hasExtension, temporalId, spatialId})\<close>. The header is
  computed on 32-bit integers and stored into a byte, which keeps its low eight bits.
  The result is optional because \<^verbatim>\<open>writeLeb128\<close> is.
\<close>

definition createOBU :: "int \<Rightarrow> bytes \<Rightarrow> bool \<Rightarrow> int \<Rightarrow> int \<Rightarrow> bytes option" where
  "createOBU ty payload hasExtension temporalId spatialId =
     (let header = push_bit 3 (word_of_int ty :: 32 word) OR 0x02;
          header' = (if hasExtension then header OR 0x04 else header)
      in case writeLeb128 (int (length payload)) of
           None \<Rightarrow> None
         | Some sizeBytes \<Rightarrow>
             Some ([ucast header']
                   @ (if hasExtension
                      then [ucast (push_bit 5 ((word_of_int temporalId :: 32 word) AND 0x07)
                                   OR push_bit 3 ((word_of_int spatialId :: 32 word) AND 0x03))]
                      else [])
                   @ sizeBytes @ payload))"

text \<open>The call with the default options \<^verbatim>\<open>{}\<close>.\<close>

definition createOBU_default :: "int \<Rightarrow> bytes \<Rightarrow> bytes option" where
  "createOBU_default ty payload = createOBU ty payload False 0 0"

section \<open>Sequence header and frame decoding (\<^verbatim>\<open>av1/decoder.ts\<close>)\<close>

text \<open>
  \<^verbatim>\<open>class BitReader\<close>: the data and a cursor made of a byte position and a bit position.
  A read past the end returns 0 and leaves the cursor where it is.
\<close>

record BitReader =
  rd_data :: bytes
  rd_pos :: nat
  rd_bitPos :: nat

definition newBitReader :: "bytes \<Rightarrow> BitReader" where
  "newBitReader data = \<lparr>rd_data = data, rd_pos = 0, rd_bitPos = 0\<rparr>"

definition readBit :: "BitReader \<Rightarrow> nat \<times> BitReader" where
  "readBit r =
     (if rd_pos r \<ge> length (rd_data r) then (0, r)
      else
        let bit = unat (drop_bit (7 - rd_bitPos r) (rd_data r ! rd_pos r) AND 1);
            bitPos' = rd_bitPos r + 1
        in if bitPos' = 8 then (bit, r\<lparr>rd_bitPos := 0, rd_pos := rd_pos r + 1\<rparr>)
           else (bit, r\<lparr>rd_bitPos := bitPos'\<rparr>))"

text \<open>
  \<^verbatim>\<open>readBits(count)\<close>: \<^verbatim>\<open>value = (value << 1) | this.readBit()\<close>, on signed 32-bit
  integers, \<^verbatim>\<open>count\<close> times.
\<close>

fun readBits_loop :: "nat \<Rightarrow> 32 word \<Rightarrow> BitReader \<Rightarrow> 32 word \<times> BitReader" where
  "readBits_loop 0 v r = (v, r)"
| "readBits_loop (Suc n) v r =
     (let (b, r') = readBit r in readBits_loop n (push_bit 1 v OR of_nat b) r')"

definition readBits :: "nat \<Rightarrow> BitReader \<Rightarrow> int \<times> BitReader" where
  "readBits count r = (let (v, r') = readBits_loop count 0 r in (sint v, r'))"

text \<open>
  \<^verbatim>\<open>readUvlc\<close>: the loop counts zero bits and returns \<^verbatim>\<open>0xFFFFFFFF\<close> at the 32nd; the
  function below returns the count and the reader, and \<open>readUvlc\<close> finishes the code.
\<close>

function readUvlc_zeros :: "nat \<Rightarrow> BitReader \<Rightarrow> nat \<times> BitReader" where
  "readUvlc_zeros leadingZeros r =
     (let (b, r') = readBit r
      in if b = 0 then
           (let leadingZeros' = leadingZeros + 1
            in if leadingZeros' \<ge> 32 then (leadingZeros', r')
               else readUvlc_zeros leadingZeros' r')
         else (leadingZeros, r'))"
  by pat_completeness auto
termination
  by (relation "measure (\<lambda>(lz, r). 32 - lz)") auto

declare readUvlc_zeros.simps [simp del]

definition readUvlc :: "BitReader \<Rightarrow> int \<times> BitReader" where
  "readUvlc r =
     (let (leadingZeros, r') = readUvlc_zeros 0 r
      in if leadingZeros \<ge> 32 then (4294967295, r')
         else
           let (v, r'') = readBits leadingZeros r'
           in (v + sint (push_bit leadingZeros (1 :: 32 word)) - 1, r''))"

record SequenceHeader =
  seqProfile :: int
  stillPicture :: bool
  reducedStillPictureHeader :: bool
  maxFrameWidth :: int
  maxFrameHeight :: int
  bitDepth :: int
  monochrome :: bool
  colorSpace :: int
  subX :: int
  subY :: int
  matrixCoefficients :: int
  colorRange :: bool

text \<open>The body of the operating-points loop, run \<^verbatim>\<open>operatingPointsCntMinus1 + 1\<close> times.\<close>

fun operating_points :: "nat \<Rightarrow> bool \<Rightarrow> bool \<Rightarrow> BitReader \<Rightarrow> BitReader" where
  "operating_points 0 decoderModelInfoPresentFlag initialDisplayDelayPresentFlag r = r"
| "operating_points (Suc n) decoderModelInfoPresentFlag initialDisplayDelayPresentFlag r =
     (let (operatingPointIdc, r1) = readBits 12 r;
          (seqLevelIdx, r2) = readBits 5 r1;
          r3 = (if seqLevelIdx > 7 then snd (readBit r2) else r2);
          r4 = (if decoderModelInfoPresentFlag then
                  (let (decoderModelPresentForThisOp, r') = readBit r3
                   in if decoderModelPresentForThisOp \<noteq> 0
                      then snd (readBit (snd (readBits 5 (snd (readBits 5 r')))))
                      else r')
                else r3);
          r5 = (if initialDisplayDelayPresentFlag then
                  (let (initialDisplayDelayPresentForThisOp, r') = readBit r4
                   in if initialDisplayDelayPresentForThisOp \<noteq> 0
                      then snd (readBits 4 r')
                      else r')
                else r4)
      in operating_points n decoderModelInfoPresentFlag initialDisplayDelayPresentFlag r5)"

text \<open>The timing-info and decoder-model-info blocks of the full header, which are skipped.\<close>

definition skip_timing_info :: "BitReader \<Rightarrow> BitReader" where
  "skip_timing_info r =
     (let (timingInfoPresentFlag, r1) = readBit r
      in if timingInfoPresentFlag \<noteq> 0 then
           (let r2 = snd (readBits 32 r1);
                r3 = snd (readBits 32 r2);
                (equalPictureInterval, r4) = readBit r3
            in if equalPictureInterval \<noteq> 0 then snd (readUvlc r4) else r4)
         else r1)"

definition parseSequenceHeader :: "bytes \<Rightarrow> SequenceHeader" where
  "parseSequenceHeader data =
     (let reader = newBitReader data;
          (seqProfile, r1) = readBits 3 reader;
          (stillPictureBit, r2) = readBit r1;
          (reducedBit, r3) = readBit r2;
          stillPicture = (stillPictureBit = 1);
          reducedStillPictureHeader = (reducedBit = 1);
          (maxFrameWidth, maxFrameHeight, r4) =
            (if reducedStillPictureHeader then
               (let (seqLevelIdx, a1) = readBits 5 r3;
                    (fw, a2) = readBits 4 a1;
                    frameWidthBits = fw + 1;
                    (fh, a3) = readBits 4 a2;
                    frameHeightBits = fh + 1;
                    (w, a4) = readBits (nat frameWidthBits) a3;
                    (h, a5) = readBits (nat frameHeightBits) a4
                in (w + 1, h + 1, a5))
             else
               (let b1 = skip_timing_info r3;
                    (decoderModelInfoPresentFlag, b2) = readBit b1;
                    b3 = (if decoderModelInfoPresentFlag \<noteq> 0
                          then snd (readBits 5 (snd (readBits 5 (snd (readBits 32 (snd (readBits 5 b2)))))))
                          else b2);
                    (initialDisplayDelayPresentFlag, b4) = readBit b3;
                    (operatingPointsCntMinus1, b5) = readBits 5 b4;
                    b6 = operating_points (nat (operatingPointsCntMinus1 + 1))
                           (decoderModelInfoPresentFlag \<noteq> 0) (initialDisplayDelayPresentFlag \<noteq> 0) b5;
                    (frameWidthBitsMinus1, b7) = readBits 4 b6;
                    (frameHeightBitsMinus1, b8) = readBits 4 b7;
                    (w, b9) = readBits (nat (frameWidthBitsMinus1 + 1)) b8;
                    (h, b10) = readBits (nat (frameHeightBitsMinus1 + 1)) b9
                in (w + 1, h + 1, b10)));
          highBitdepth = False;
          twelveBit = False;
          r5 = (if \<not> reducedStillPictureHeader then
                  (let (frameIdNumbersPresentFlag, c1) = readBit r4;
                       c2 = (if frameIdNumbersPresentFlag \<noteq> 0
                             then snd (readBits 3 (snd (readBits 4 c1))) else c1)
                   in snd (readBit (snd (readBit (snd (readBit c2))))))
                else r4);
          bitDepth = (if seqProfile = 2 \<and> highBitdepth then (if twelveBit then 12 else 10)
                      else if seqProfile \<ge> 2 then 10
                      else (if highBitdepth then 10 else 8))
      in \<lparr>seqProfile = seqProfile, stillPicture = stillPicture,
          reducedStillPictureHeader = reducedStillPictureHeader,
          maxFrameWidth = maxFrameWidth, maxFrameHeight = maxFrameHeight,
          bitDepth = bitDepth, monochrome = False, colorSpace = 0,
          subX = 1, subY = 1, matrixCoefficients = 0, colorRange = False\<rparr>)"

text \<open>
  \<^verbatim>\<open>decodeFrame\<close>: a zero-filled array of \<^verbatim>\<open>numPixels * 4\<close> bytes, then four element
  writes per pixel. \<^verbatim>\<open>new Uint8Array(n)\<close> throws a \<^verbatim>\<open>RangeError\<close> when \<^verbatim>\<open>n\<close> is negative
  or when the runtime does not grant an array of that length. The largest length it
  grants is fixed by the runtime, not by the source, and is the parameter
  \<open>maxByteLength\<close> of \<open>decodeFrame\<close> and \<open>decodeAV1\<close>.
\<close>

definition paint :: "nat \<Rightarrow> bytes \<Rightarrow> bytes" where
  "paint i rgba = rgba[i * 4 := 128, i * 4 + 1 := 128, i * 4 + 2 := 128, i * 4 + 3 := 255]"

definition decodeFrame :: "nat \<Rightarrow> bytes \<Rightarrow> SequenceHeader \<Rightarrow> error + bytes" where
  "decodeFrame maxByteLength data seqHeader =
     (let width = maxFrameWidth seqHeader;
          height = maxFrameHeight seqHeader;
          numPixels = width * height
      in if numPixels * 4 < 0 \<or> int maxByteLength < numPixels * 4 then Inl RangeError
         else Inr (fold paint [0 ..< nat numPixels] (replicate (nat (numPixels * 4)) 0)))"

record AvifImageData =
  img_data :: bytes
  img_width :: int
  img_height :: int
  img_hasAlpha :: bool
  img_bitDepth :: int

definition decodeAV1 :: "nat \<Rightarrow> bytes \<Rightarrow> (error + AvifImageData) option" where
  "decodeAV1 maxByteLength data =
     (case parseOBUs data of
        None \<Rightarrow> None
      | Some (Inl e) \<Rightarrow> Some (Inl e)
      | Some (Inr obus) \<Rightarrow>
          (case find (\<lambda>obu. obu_type obu = SEQUENCE_HEADER) obus of
             None \<Rightarrow> Some (Inl NoSequenceHeader)
           | Some seqHeaderOBU \<Rightarrow>
               let seqHeader = parseSequenceHeader (obu_data seqHeaderOBU)
               in (case find (\<lambda>obu. obu_type obu = FRAME) obus of
                     None \<Rightarrow> Some (Inl NoFrameData)
                   | Some frameOBU \<Rightarrow>
                       (case decodeFrame maxByteLength (obu_data frameOBU) seqHeader of
                          Inl e \<Rightarrow> Some (Inl e)
                        | Inr pixels \<Rightarrow>
                            Some (Inr \<lparr>img_data = pixels,
                                       img_width = maxFrameWidth seqHeader,
                                       img_height = maxFrameHeight seqHeader,
                                       img_hasAlpha = False,
                                       img_bitDepth = bitDepth seqHeader\<rparr>)))))"

text \<open>
  The bit stream as the specification describes it: bit \<open>i\<close> of the stream is bit
  \<open>7 - i mod 8\<close> of byte \<open>i div 8\<close> (most significant bit first), and 0 past the end;
  a field of \<open>n\<close> bits starting at bit \<open>start\<close> is read most significant bit first.
\<close>

definition stream_bit :: "bytes \<Rightarrow> nat \<Rightarrow> nat" where
  "stream_bit data i =
     (if i div 8 < length data \<and> bit (data ! (i div 8)) (7 - i mod 8) then 1 else 0)"

definition bit_field :: "bytes \<Rightarrow> nat \<Rightarrow> nat \<Rightarrow> nat" where
  "bit_field data start n = foldl (\<lambda>acc i. 2 * acc + stream_bit data i) 0 [start ..< start + n]"

text \<open>The reader \<open>r\<close> over \<open>data\<close> stands at bit \<open>p\<close> of the stream.\<close>

definition reader_at :: "bytes \<Rightarrow> nat \<Rightarrow> BitReader \<Rightarrow> bool" where
  "reader_at data p r \<longleftrightarrow>
     rd_data r = data \<and>
     ((rd_pos r < length data \<and> rd_bitPos r < 8 \<and> rd_pos r * 8 + rd_bitPos r = p)
      \<or> (rd_pos r = length data \<and> rd_bitPos r = 0 \<and> 8 * length data \<le> p))"

section \<open>The container (\<^verbatim>\<open>container/heif.ts\<close>)\<close>

text \<open>
  \<^verbatim>\<open>interface ISOBMFFBox\<close>. The optional \<^verbatim>\<open>children\<close> field is \<open>None\<close> when absent.
  Sizes and offsets are natural numbers: the integers that the source's numbers hold.
\<close>

datatype ISOBMFFBox =
  Box (box_type: string) (box_size: nat) (box_offset: nat) (box_data: bytes)
      (box_children: "ISOBMFFBox list option")

definition isContainerBox :: "string \<Rightarrow> bool" where
  "isContainerBox ty \<longleftrightarrow>
     ty \<in> set [''moov'', ''trak'', ''mdia'', ''minf'', ''stbl'', ''dinf'',
                ''meta'', ''iprp'', ''ipco'', ''iref'', ''grpl'']"

text \<open>
  The head of the loop body of \<^verbatim>\<open>parseISOBMFF\<close>: the 32-bit size, the type, and the
  64-bit size when the 32-bit size is 1. It gives the type, \<^verbatim>\<open>boxSize\<close> and
  \<^verbatim>\<open>headerSize\<close>. In \<^verbatim>\<open>highSize * 0x100000000 + lowSize\<close> the product is exact and the
  sum is rounded to a double.
\<close>

definition readBoxHeader :: "bytes \<Rightarrow> nat \<Rightarrow> error + (string \<times> nat \<times> nat)" where
  "readBoxHeader buffer offset =
     bindE (getUint32 buffer offset) (\<lambda>size.
       let ty = fromCharCode [byte_at buffer (int offset + 4), byte_at buffer (int offset + 5),
                              byte_at buffer (int offset + 6), byte_at buffer (int offset + 7)]
       in if size = 1 then
            bindE (getUint32 buffer (offset + 8)) (\<lambda>highSize.
            bindE (getUint32 buffer (offset + 12)) (\<lambda>lowSize.
              Inr (ty, num_add (highSize * 4294967296) lowSize, 16)))
          else if size = 0 then Inr (ty, length buffer - offset, 8)
          else Inr (ty, size, 8))"

text \<open>
  \<^verbatim>\<open>parseISOBMFF\<close>: \<^verbatim>\<open>while (offset < buffer.length - 8)\<close>, a recursive call on the
  payload of a container box, and \<^verbatim>\<open>offset += boxSize\<close>. Nothing in the loop forces
  \<^verbatim>\<open>boxSize\<close> to be positive, so the result is optional: \<open>None\<close> is the run that never
  leaves the loop.
\<close>

partial_function (option) parseISOBMFF_loop ::
  "bytes \<Rightarrow> nat \<Rightarrow> ISOBMFFBox list \<Rightarrow> (error + ISOBMFFBox list) option" where
  "parseISOBMFF_loop buffer offset boxes =
     (if int offset < int (length buffer) - 8 then
        (case readBoxHeader buffer offset of
           Inl e \<Rightarrow> Some (Inl e)
         | Inr (ty, boxSize, headerSize) \<Rightarrow>
             let data = slice_nat buffer (offset + headerSize) (num_add offset boxSize)
             in if isContainerBox ty then
                  Option.bind (parseISOBMFF_loop data 0 []) (\<lambda>r.
                    case r of
                      Inl e \<Rightarrow> Some (Inl e)
                    | Inr children \<Rightarrow>
                        parseISOBMFF_loop buffer (num_add offset boxSize)
                          (boxes @ [Box ty boxSize offset data (Some children)]))
                else
                  parseISOBMFF_loop buffer (num_add offset boxSize)
                    (boxes @ [Box ty boxSize offset data None]))
      else Some (Inr boxes))"

declare parseISOBMFF_loop.simps [code]

definition parseISOBMFF :: "bytes \<Rightarrow> (error + ISOBMFFBox list) option" where
  "parseISOBMFF buffer = parseISOBMFF_loop buffer 0 []"

text \<open>\<^verbatim>\<open>findBox\<close>: depth first, the box itself before its children.\<close>

fun findBox :: "ISOBMFFBox list \<Rightarrow> string \<Rightarrow> ISOBMFFBox option" where
  "findBox [] ty = None"
| "findBox (Box t s off d None # rest) ty =
     (if t = ty then Some (Box t s off d None) else findBox rest ty)"
| "findBox (Box t s off d (Some children) # rest) ty =
     (if t = ty then Some (Box t s off d (Some children))
      else case findBox children ty of
             Some found \<Rightarrow> Some found
           | None \<Rightarrow> findBox rest ty)"



text \<open>
  The three places of \<^verbatim>\<open>parseIloc\<close> that read a field of 4 or 8 bytes, or nothing for
  any other width (\<^verbatim>\<open>baseOffset\<close>, \<^verbatim>\<open>extentOffset\<close>, \<^verbatim>\<open>extentLength\<close>): the value and
  the new offset. The 8-byte value is \<^verbatim>\<open>getUint32(offset) * 0x100000000 + getUint32(offset + 4)\<close>,
  an exact product and a sum rounded to a double.
\<close>

definition read_sized :: "bytes \<Rightarrow> nat \<Rightarrow> nat \<Rightarrow> error + (nat \<times> nat)" where
  "read_sized data fieldSize offset =
     (if fieldSize = 4 then
        bindE (getUint32 data offset) (\<lambda>v. Inr (v, offset + 4))
      else if fieldSize = 8 then
        bindE (getUint32 data offset) (\<lambda>hi.
        bindE (getUint32 data (offset + 4)) (\<lambda>lo. Inr (num_add (hi * 4294967296) lo, offset + 8)))
      else Inr (0, offset))"




text \<open>\<^verbatim>\<open>interface ItemInfo\<close>, \<^verbatim>\<open>parseInfe\<close> and \<^verbatim>\<open>parseIinf\<close>.\<close>

record ItemInfo =
  info_itemId :: nat
  itemProtectionIndex :: nat
  itemType :: string
  itemName :: string

definition parseInfe :: "bytes \<Rightarrow> error + ItemInfo" where
  "parseInfe data =
     (let version = unat (byte_at data 0)
      in bindE (if data \<noteq> [] \<and> version < 2 then
                  bindE (getUint16 data 4) (\<lambda>i. bindE (getUint16 data 6) (\<lambda>p. Inr (i, p, 8)))
                else if data \<noteq> [] \<and> version = 2 then
                  bindE (getUint16 data 4) (\<lambda>i. bindE (getUint16 data 6) (\<lambda>p. Inr (i, p, 8)))
                else
                  bindE (getUint32 data 4) (\<lambda>i. bindE (getUint16 data 8) (\<lambda>p. Inr (i, p, 10))))
          (\<lambda>(itemId, itemProtectionIndex, offset).
             Inr \<lparr>info_itemId = itemId, itemProtectionIndex = itemProtectionIndex,
                  itemType = fromCharCode [byte_at data (int offset), byte_at data (int offset + 1),
                                           byte_at data (int offset + 2), byte_at data (int offset + 3)],
                  itemName = fromCharCode (takeWhile (\<lambda>b. b \<noteq> 0) (drop (offset + 4) data))\<rparr>))"

fun parseIinf_entries :: "bytes \<Rightarrow> nat \<Rightarrow> nat \<Rightarrow> ItemInfo list \<Rightarrow> error + ItemInfo list" where
  "parseIinf_entries data 0 offset items = Inr items"
| "parseIinf_entries data (Suc n) offset items =
     bindE (getUint32 data offset) (\<lambda>entrySize.
       let entryType = fromCharCode [byte_at data (int offset + 4), byte_at data (int offset + 5),
                                     byte_at data (int offset + 6), byte_at data (int offset + 7)]
       in if entryType = ''infe'' then
            bindE (parseInfe (slice_nat data (offset + 8) (offset + entrySize))) (\<lambda>itemInfo.
              parseIinf_entries data n (offset + entrySize) (items @ [itemInfo]))
          else parseIinf_entries data n (offset + entrySize) items)"

definition parseIinf :: "bytes \<Rightarrow> error + ItemInfo list" where
  "parseIinf data =
     bindE (if data \<noteq> [] \<and> byte_at data 0 = 0 then bindE (getUint16 data 4) (\<lambda>v. Inr (v, 6))
            else bindE (getUint32 data 4) (\<lambda>v. Inr (v, 8))) (\<lambda>(entryCount, offset).
       parseIinf_entries data entryCount offset [])"

text \<open>\<^verbatim>\<open>parseIspe\<close>, \<^verbatim>\<open>parsePixi\<close> and \<^verbatim>\<open>parseAv1C\<close>.\<close>

definition parseIspe :: "bytes \<Rightarrow> error + (nat \<times> nat)" where
  "parseIspe data =
     bindE (getUint32 data 4) (\<lambda>width. bindE (getUint32 data 8) (\<lambda>height. Inr (width, height)))"

text \<open>An element of \<^verbatim>\<open>bitsPerChannel\<close> read past the end of the data is \<^verbatim>\<open>undefined\<close>: \<open>None\<close>.\<close>

definition parsePixi :: "bytes \<Rightarrow> nat option list" where
  "parsePixi data =
     map (\<lambda>i. if 5 + i < length data then Some (unat (data ! (5 + i))) else None)
         [0 ..< unat (byte_at data 4)]"

record AV1CodecConfig =
  cfg_seqProfile :: nat
  seqLevelIdx0 :: nat
  seqTier0 :: nat
  highBitdepth :: nat
  twelveBit :: nat
  cfg_monochrome :: nat
  chromaSubsamplingX :: nat
  chromaSubsamplingY :: nat
  chromaSamplePosition :: nat

definition parseAv1C :: "bytes \<Rightarrow> error + AV1CodecConfig" where
  "parseAv1C data =
     (let marker = drop_bit 7 (byte_at data 0);
          version = byte_at data 0 AND 0x7F
      in if marker \<noteq> 1 \<or> version \<noteq> 1 then Inl InvalidCodecConfig
         else Inr \<lparr>cfg_seqProfile = unat (drop_bit 5 (byte_at data 1) AND 0x07),
                   seqLevelIdx0 = unat (byte_at data 1 AND 0x1F),
                   seqTier0 = unat (drop_bit 7 (byte_at data 2) AND 0x01),
                   highBitdepth = unat (drop_bit 6 (byte_at data 2) AND 0x01),
                   twelveBit = unat (drop_bit 5 (byte_at data 2) AND 0x01),
                   cfg_monochrome = unat (drop_bit 4 (byte_at data 2) AND 0x01),
                   chromaSubsamplingX = unat (drop_bit 3 (byte_at data 2) AND 0x01),
                   chromaSubsamplingY = unat (drop_bit 2 (byte_at data 2) AND 0x01),
                   chromaSamplePosition = unat (byte_at data 2 AND 0x03)\<rparr>)"

text \<open>
  \<^verbatim>\<open>interface AvifInfo\<close> and \<^verbatim>\<open>getAvifInfo\<close>. The bit depth is optional because
  \<^verbatim>\<open>bitsPerChannel[0]\<close> can be \<^verbatim>\<open>undefined\<close>.
\<close>

record AvifInfo =
  info_width :: nat
  info_height :: nat
  info_hasAlpha :: bool
  info_bitDepth :: "nat option"
  info_colorSpace :: string
  info_isSequence :: bool

definition getAvifInfo :: "ISOBMFFBox list \<Rightarrow> error + AvifInfo" where
  "getAvifInfo boxes =
     (case findBox boxes ''meta'' of
        None \<Rightarrow> Inl (MissingBox ''meta'')
      | Some metaBox \<Rightarrow>
     (case box_children metaBox of
        None \<Rightarrow> Inl (MissingBox ''meta'')
      | Some metaChildren \<Rightarrow>
     (case findBox metaChildren ''iprp'' of
        None \<Rightarrow> Inl (MissingBox ''iprp'')
      | Some iprpBox \<Rightarrow>
     (case box_children iprpBox of
        None \<Rightarrow> Inl (MissingBox ''iprp'')
      | Some iprpChildren \<Rightarrow>
     (case findBox iprpChildren ''ipco'' of
        None \<Rightarrow> Inl (MissingBox ''ipco'')
      | Some ipcoBox \<Rightarrow>
     (case box_children ipcoBox of
        None \<Rightarrow> Inl (MissingBox ''ipco'')
      | Some ipcoChildren \<Rightarrow>
        bindE (case findBox ipcoChildren ''ispe'' of
                 None \<Rightarrow> Inr (0, 0)
               | Some ispeBox \<Rightarrow> parseIspe (box_data ispeBox)) (\<lambda>(width, height).
        let bitDepth0 = (case findBox ipcoChildren ''pixi'' of
                           None \<Rightarrow> Some 8
                         | Some pixiBox \<Rightarrow>
                             (case parsePixi (box_data pixiBox) of
                                [] \<Rightarrow> Some 8
                              | b # bs \<Rightarrow> b))
        in
        bindE (case findBox ipcoChildren ''av1C'' of
                 None \<Rightarrow> Inr bitDepth0
               | Some av1cBox \<Rightarrow>
                   bindE (parseAv1C (box_data av1cBox)) (\<lambda>config.
                     if highBitdepth config \<noteq> 0
                     then Inr (Some (if twelveBit config \<noteq> 0 then 12 else 10))
                     else Inr bitDepth0)) (\<lambda>bitDepth.
        bindE (case findBox metaChildren ''iinf'' of
                 None \<Rightarrow> Inr False
               | Some iinfBox \<Rightarrow>
                   bindE (parseIinf (box_data iinfBox)) (\<lambda>items.
                     Inr (list_ex (\<lambda>item. itemType item = ''auxl''
                                      \<or> str_includes (itemName item) ''Alpha'') items))) (\<lambda>hasAlpha.
        let isSequence = list_ex (\<lambda>box. box_type box = ''moov'') boxes
        in Inr \<lparr>info_width = width, info_height = height, info_hasAlpha = hasAlpha,
                info_bitDepth = bitDepth, info_colorSpace = ''srgb'',
                info_isSequence = isSequence\<rparr>)))))))))"

text \<open>
  \<^verbatim>\<open>getAlphaItemId\<close> of \<^verbatim>\<open>decoder.ts\<close>, the second place that looks for the alpha item:
  here the name is lower-cased before the search for \<^verbatim>\<open>'alpha'\<close>.
\<close>

definition getAlphaItemId :: "ISOBMFFBox list \<Rightarrow> error + nat option" where
  "getAlphaItemId boxes =
     (case findBox boxes ''meta'' of
        None \<Rightarrow> Inr None
      | Some metaBox \<Rightarrow>
     (case box_children metaBox of
        None \<Rightarrow> Inr None
      | Some metaChildren \<Rightarrow>
     (case findBox metaChildren ''iinf'' of
        None \<Rightarrow> Inr None
      | Some iinfBox \<Rightarrow>
          bindE (parseIinf (box_data iinfBox)) (\<lambda>items.
            Inr (map_option info_itemId
                   (find (\<lambda>item. itemType item = ''auxl''
                            \<or> str_includes (toLowerCase (itemName item)) ''alpha'') items))))))"


subsection \<open>Concrete files\<close>

text \<open>
  A file whose only item is named \<^verbatim>\<open>alpha\<close> in lower case: a \<^verbatim>\<open>meta\<close> box holding an
  \<^verbatim>\<open>iinf\<close> box with one \<^verbatim>\<open>infe\<close> entry (version 2, item 2, type \<^verbatim>\<open>av01\<close>, name
  \<^verbatim>\<open>alpha\<close>) and an \<^verbatim>\<open>iprp\<close> box holding an \<^verbatim>\<open>ipco\<close> box; and the box tree it parses to.
\<close>

definition alpha_name_file :: bytes where
  "alpha_name_file =
     [0,0,0,65, 0x6D,0x65,0x74,0x61,
      0,0,0,40, 0x69,0x69,0x6E,0x66, 0,0,0,0, 0,1,
      0,0,0,26, 0x69,0x6E,0x66,0x65, 2,0,0,0, 0,2, 0,0, 0x61,0x76,0x30,0x31,
      0x61,0x6C,0x70,0x68,0x61,0,
      0,0,0,17, 0x69,0x70,0x72,0x70, 0,0,0,9, 0x69,0x70,0x63,0x6F, 0]"

definition alpha_name_boxes :: "ISOBMFFBox list" where
  "alpha_name_boxes =
     [Box ''meta'' 65 0 (drop 8 alpha_name_file)
        (Some [Box ''iinf'' 40 0 (take 32 (drop 16 alpha_name_file)) None,
               Box ''iprp'' 17 40 (drop 56 alpha_name_file)
                 (Some [Box ''ipco'' 9 0 [0] (Some [])])])]"





section \<open>Properties\<close>

subsection \<open>LEB128\<close>

lemma sdb_nonneg: "\<not> bit (v :: 32 word) 31 \<Longrightarrow> signed_drop_bit 7 v = drop_bit 7 v"
  by (rule bit_word_eqI) (auto simp add: bit_signed_drop_bit_iff bit_drop_bit_eq dest: bit_imp_le_length)

lemma sdb_neg: "bit (v :: 32 word) 31 \<Longrightarrow> bit (signed_drop_bit 7 v) 31"
  by (simp add: bit_signed_drop_bit_iff)

lemma writeLeb128_loop_returns_nonneg:
  assumes "writeLeb128_loop v acc = Some r" shows "\<not> bit v 31"
proof (rule writeLeb128_loop.raw_induct[where P = "\<lambda>v acc r. \<not> bit v 31", OF _ assms], goal_cases)
  case (1 loop v bytes r)
  show ?case
  proof
    assume neg: "bit v 31"
    then have b: "bit (signed_drop_bit 7 v) 31" by (rule sdb_neg)
    then have nz: "signed_drop_bit 7 v \<noteq> 0" by auto
    from 1(2) have "\<exists>bs. loop (signed_drop_bit 7 v) bs = Some r"
      by (simp only: Let_def nz if_True not_False_eq_True) blast
    then obtain bs where "loop (signed_drop_bit 7 v) bs = Some r" ..
    then have "\<not> bit (signed_drop_bit 7 v) 31" by (rule 1(1))
    with b show False by simp
  qed
qed

lemma bit31_hi:
  assumes "2 ^ 31 \<le> v" "v < 2 ^ 32" shows "bit (word_of_int v :: 32 word) 31"
proof -
  have "v div 2147483648 = 1" using assms by simp
  then have "odd (v div 2 ^ 31)" by simp
  then have "bit v 31" unfolding bit_iff_odd .
  then show ?thesis unfolding bit_word_of_int_iff by simp
qed

lemma bit31_lo:
  assumes "0 \<le> v" "v < 2 ^ 31" shows "\<not> bit (word_of_int v :: 32 word) 31"
proof -
  have "v div 2147483648 = 0" using assms by simp
  then have "even (v div 2 ^ 31)" by simp
  then have "\<not> bit v 31" unfolding bit_iff_odd by simp
  then show ?thesis unfolding bit_word_of_int_iff by simp
qed

lemma writeLeb128_never_returns:
  assumes "2 ^ 31 \<le> v" "v < 2 ^ 32" shows "writeLeb128 v = None"
proof (rule ccontr)
  assume "writeLeb128 v \<noteq> None"
  then obtain r where "writeLeb128_loop (word_of_int v) [] = Some r"
    by (auto simp add: writeLeb128_def)
  then have "\<not> bit (word_of_int v :: 32 word) 31" by (rule writeLeb128_loop_returns_nonneg)
  with bit31_hi[OF assms] show False by simp
qed

lemma drop_nb: "\<not> bit (drop_bit 7 (v :: 32 word)) 31"
  by (auto simp add: bit_drop_bit_eq dest: bit_imp_le_length)

lemma writeLeb128_loop_nonneg:
  "\<not> bit v 31 \<Longrightarrow> writeLeb128_loop v acc = Some (acc @ leb_bytes v)"
proof (induction v arbitrary: acc rule: leb_bytes.induct)
  case (1 w)
  have sd: "signed_drop_bit 7 w = drop_bit 7 w" using 1(2) by (rule sdb_nonneg)
  show ?case
  proof (cases "drop_bit 7 w = 0")
    case True
    have "writeLeb128_loop w acc = Some (acc @ [ucast (w AND 0x7F)])"
      by (subst writeLeb128_loop.simps) (simp only: sd True Let_def if_False not_True_eq_False refl)
    moreover have "leb_bytes w = [ucast (w AND 0x7F)]"
      by (subst leb_bytes.simps) (simp only: True if_True simp_thms)
    ultimately show ?thesis by (simp only:)
  next
    case False
    have "writeLeb128_loop w acc = writeLeb128_loop (drop_bit 7 w) (acc @ [ucast (w AND 0x7F OR 0x80)])"
      by (subst writeLeb128_loop.simps) (simp only: sd False Let_def if_True not_False_eq_True)
    also have "\<dots> = Some ((acc @ [ucast (w AND 0x7F OR 0x80)]) @ leb_bytes (drop_bit 7 w))"
      using False drop_nb by (rule "1.IH")
    finally have "writeLeb128_loop w acc = Some ((acc @ [ucast (w AND 0x7F OR 0x80)]) @ leb_bytes (drop_bit 7 w))" .
    moreover have "leb_bytes w = ucast (w AND 0x7F OR 0x80) # leb_bytes (drop_bit 7 w)"
      by (subst leb_bytes.simps) (simp only: False if_False simp_thms)
    ultimately show ?thesis by (simp only: append_assoc append_Cons append_Nil)
  qed
qed

lemma c7f: "(0x7F :: 'a::len word) = mask 7" by (simp add: mask_eq_exp_minus_1)

lemma bit128: "bit (128 :: 'a::len word) n \<longleftrightarrow> n = 7 \<and> 7 < LENGTH('a)"
proof -
  have e: "bit ((2 :: 'a word) ^ 7) n \<longleftrightarrow> n = 7 \<and> 7 < LENGTH('a)"
    by (simp only: bit_exp_iff possible_bit_word) auto
  have "(2 :: 'a word) ^ 7 = 128" by simp
  with e show ?thesis by (simp only:)
qed

lemma bit128_int: "bit (128 :: int) n \<longleftrightarrow> n = 7"
proof -
  have e: "bit ((2 :: int) ^ 7) n \<longleftrightarrow> n = 7"
    by (simp only: bit_exp_iff possible_bit_int) auto
  have "(2 :: int) ^ 7 = 128" by simp
  with e show ?thesis by (simp only:)
qed

lemma ucast_low7: "(ucast ((ucast ((w :: 32 word) AND 0x7F) :: 8 word) AND 0x7F) :: 32 word) = w AND 0x7F"
  unfolding c7f
  by (rule bit_word_eqI) (auto simp add: bit_simps)

lemma ucast_low7c: "(ucast ((ucast ((w :: 32 word) AND 0x7F OR 0x80) :: 8 word) AND 0x7F) :: 32 word) = w AND 0x7F"
  unfolding c7f
  by (rule bit_word_eqI) (auto simp add: bit_simps bit128 bit128_int)

lemma cont_clear: "(ucast ((w :: 32 word) AND 0x7F) :: 8 word) AND 0x80 = 0"
  unfolding c7f
  by (rule bit_word_eqI) (auto simp add: bit_simps bit128 bit128_int)

lemma cont_set: "(ucast ((w :: 32 word) AND 0x7F OR 0x80) :: 8 word) AND 0x80 \<noteq> 0"
proof -
  have "bit ((ucast ((w :: 32 word) AND 0x7F OR 0x80) :: 8 word) AND 0x80) 7"
    unfolding c7f by (simp add: bit_simps bit128 bit128_int)
  then show ?thesis by auto
qed

lemma reassemble:
  "(acc OR push_bit k ((w :: 32 word) AND 0x7F)) OR push_bit (k + 7) (drop_bit 7 w) = acc OR push_bit k w"
  unfolding c7f
proof (rule bit_word_eqI, goal_cases)
  case (1 n)
  have "(k \<le> n \<and> n - k < 7 \<and> bit w (n - k)) \<or> (k + 7 \<le> n \<and> bit w (7 + (n - (k + 7)))) \<longleftrightarrow> k \<le> n \<and> bit w (n - k)"
    by (cases "n - k < 7") (auto simp add: le_diff_conv2 algebra_simps)
  then show ?case
    using 1 by (auto simp add: bit_simps)
qed

lemma and7f_id: "drop_bit 7 (w :: 32 word) = 0 \<Longrightarrow> w AND 0x7F = w"
proof -
  assume z: "drop_bit 7 w = 0"
  have "(0 OR push_bit 0 (w AND 0x7F)) OR push_bit (0 + 7) (drop_bit 7 w) = 0 OR push_bit 0 w"
    by (rule reassemble)
  then show ?thesis unfolding z by simp
qed

lemma byte_at_mid: "int (length pre) = k \<Longrightarrow> byte_at (pre @ b # rest) k = b"
  by (auto simp add: byte_at_def)

lemma drop35: "drop_bit 35 (w :: 32 word) = 0"
  by (rule bit_word_eqI) (auto simp add: bit_simps)

lemma readLeb128_loop_leb_bytes:
  assumes "off + int i = int (length pre)" "i \<le> 4"
  shows "readLeb128_loop (pre @ leb_bytes (drop_bit (7 * i) w0) @ post) off acc i
         = Inr (sint (acc OR push_bit (7 * i) (drop_bit (7 * i) w0)), i + length (leb_bytes (drop_bit (7 * i) w0)))"
  using assms
proof (induction "5 - i" arbitrary: i pre acc)
  case 0
  then show ?case by simp
next
  case (Suc n)
  define w where "w = drop_bit (7 * i) w0"
  define data where "data = pre @ leb_bytes w @ post"
  have dd: "drop_bit 7 w = drop_bit (7 * Suc i) w0"
    unfolding w_def drop_bit_drop_bit by (simp add: add.commute)
  have sh: "(i * 7) mod 32 = 7 * i" using Suc.prems(2) by simp
  have main: "readLeb128_loop data off acc i = Inr (sint (acc OR push_bit (7 * i) w), i + length (leb_bytes w))"
  proof (cases "drop_bit 7 w = 0")
    case True
    have lb: "leb_bytes w = [ucast (w AND 0x7F)]"
      by (subst leb_bytes.simps) (simp only: True if_True simp_thms)
    have bt: "byte_at data (off + int i) = ucast (w AND 0x7F)"
      unfolding data_def lb using Suc.prems(1) by (simp add: byte_at_mid)
    have len: "\<not> off + int i \<ge> int (length data)"
      unfolding data_def lb using Suc.prems(1) by simp
    have "readLeb128_loop data off acc i = Inr (sint (acc OR push_bit (7 * i) (w AND 0x7F)), i + 1)"
      apply (subst readLeb128_loop.simps)
      apply (simp only: len if_False Let_def bt cont_clear ucast_low7 sh)
      using Suc.prems(2) by simp
    then show ?thesis
      unfolding lb using and7f_id[OF True] by simp
  next
    case False
    have i3: "i < 4"
    proof (rule ccontr)
      assume "\<not> i < 4"
      with Suc.prems(2) have "i = 4" by simp
      then have "drop_bit 7 w = 0" unfolding dd using drop35 by simp
      with False show False by simp
    qed
    have lb: "leb_bytes w = ucast (w AND 0x7F OR 0x80) # leb_bytes (drop_bit 7 w)"
      by (subst leb_bytes.simps) (simp only: False if_False simp_thms)
    have bt: "byte_at data (off + int i) = ucast (w AND 0x7F OR 0x80)"
      unfolding data_def lb using Suc.prems(1) by (simp add: byte_at_mid)
    have len: "\<not> off + int i \<ge> int (length data)"
      unfolding data_def lb using Suc.prems(1) by simp
    have step: "readLeb128_loop data off acc i
        = readLeb128_loop data off (acc OR push_bit (7 * i) (w AND 0x7F)) (i + 1)"
      apply (subst readLeb128_loop.simps)
      apply (simp only: len if_False Let_def bt cont_set ucast_low7c sh)
      using i3 by simp
    have data': "data = (pre @ [ucast (w AND 0x7F OR 0x80)]) @ leb_bytes (drop_bit (7 * Suc i) w0) @ post"
      unfolding data_def lb dd by simp
    have "readLeb128_loop data off (acc OR push_bit (7 * i) (w AND 0x7F)) (Suc i)
        = Inr (sint ((acc OR push_bit (7 * i) (w AND 0x7F)) OR push_bit (7 * Suc i) (drop_bit (7 * Suc i) w0)),
               Suc i + length (leb_bytes (drop_bit (7 * Suc i) w0)))"
      unfolding data'
      apply (rule Suc.hyps(1))
      using Suc.hyps(2) Suc.prems i3 by auto
    also have "(acc OR push_bit (7 * i) (w AND 0x7F)) OR push_bit (7 * Suc i) (drop_bit (7 * Suc i) w0)
         = acc OR push_bit (7 * i) w"
      unfolding dd[symmetric] using reassemble[of acc "7 * i" w] by (simp add: add.commute)
    finally show ?thesis
      unfolding step lb dd by simp
  qed
  then show ?case unfolding data_def w_def .
qed

lemma readLeb128_leb_bytes:
  "readLeb128 (pre @ leb_bytes w @ post) (int (length pre)) = Inr (sint w, length (leb_bytes w))"
  using readLeb128_loop_leb_bytes[of "int (length pre)" 0 pre w post 0]
  by (simp add: readLeb128_def)

lemma sint_word_of_int_small:
  assumes "0 \<le> v" "v < 2 ^ 31" shows "sint (word_of_int v :: 32 word) = v"
proof -
  have "sint (word_of_int v :: 32 word) = signed_take_bit (LENGTH(32) - 1) v"
    by (rule sint_sbintrunc')
  also have "\<dots> = v" using assms by (intro signed_take_bit_int_eq_self) simp_all
  finally show ?thesis .
qed

lemma writeLeb128_below_2_pow_31:
  assumes "0 \<le> v" "v < 2 ^ 31"
  shows "writeLeb128 v = Some (leb_bytes (word_of_int v))"
  unfolding writeLeb128_def
  using writeLeb128_loop_nonneg[OF bit31_lo[OF assms], of "[]"] by simp

lemma leb128_roundtrip_below_2_pow_31:
  assumes "0 \<le> v" "v < 2 ^ 31"
  shows "\<exists>bs. writeLeb128 v = Some bs \<and> readLeb128 (pre @ bs @ post) (int (length pre)) = Inr (v, length bs)"
  using writeLeb128_below_2_pow_31[OF assms] readLeb128_leb_bytes[of pre "word_of_int v" post]
    sint_word_of_int_small[OF assms] by simp

text \<open>
  C1. The round trip \<open>readLeb128 (writeLeb128 v) = v\<close> is claimed for every \<open>v\<close> below
  \<open>2 ^ 32\<close>, with both loops terminating. At \<open>v = 2 ^ 31 = 2147483648\<close> the encoder
  does not return: the number converts to the negative 32-bit integer \<open>- 2 ^ 31\<close>, the
  sign-propagating shift keeps it negative, and the exit test \<^verbatim>\<open>value !== 0\<close> never
  succeeds.
\<close>

theorem writeLeb128_2147483648_never_returns: "writeLeb128 2147483648 = None"
  by (rule writeLeb128_never_returns) simp_all

subsection \<open>OBU framing\<close>

lemma small_cases: "0 \<le> (ty::int) \<Longrightarrow> ty < 16 \<Longrightarrow> ty \<in> {0,1,2,3,4,5,6,7,8,9,10,11,12,13,14,15}"
  by (simp only: insert_iff empty_iff) presburger

lemma header_byte:
  assumes "0 \<le> ty" "ty < 16"
  defines "h \<equiv> (ucast (push_bit 3 (word_of_int ty :: 32 word) OR 0x02) :: 8 word)"
  shows "h AND 0x80 = 0" "unat (drop_bit 3 h AND 0x0F) = nat ty" "h AND 0x04 = 0" "h AND 0x02 \<noteq> 0"
  using small_cases[OF assms(1,2)] unfolding h_def by auto

lemma slice_int_suffix: "slice_int (pre @ xs) (int (length pre)) (int (length pre) + int (length xs)) = xs"
  by (simp add: slice_int_def Let_def)

lemma parseOBU_createOBU_below_2_pow_31:
  assumes "0 \<le> ty" "ty < 16" "length payload < 2 ^ 31"
  shows "\<exists>buf. createOBU_default ty payload = Some buf \<and>
          parseOBU buf 0 = Inr (Some \<lparr>obu_type = nat ty, obu_size = int (length buf), obu_data = payload\<rparr>)"
proof -
  define h where "h = (ucast (push_bit 3 (word_of_int ty :: 32 word) OR 0x02) :: 8 word)"
  define n where "n = (word_of_int (int (length payload)) :: 32 word)"
  define buf where "buf = [h] @ leb_bytes n @ payload"
  have w: "writeLeb128 (int (length payload)) = Some (leb_bytes n)"
    unfolding n_def using assms(3) by (intro writeLeb128_below_2_pow_31) simp_all
  have c: "createOBU_default ty payload = Some buf"
    by (simp add: createOBU_default_def createOBU_def w buf_def h_def)
  have r: "readLeb128 buf 1 = Inr (int (length payload), length (leb_bytes n))"
    using readLeb128_leb_bytes[of "[h]" n payload] sint_word_of_int_small[of "int (length payload)"] assms(3)
    by (simp add: buf_def n_def)
  have hb: "byte_at buf 0 = h" by (simp add: buf_def byte_at_def)
  note hd = header_byte[OF assms(1,2), folded h_def]
  have sl: "slice_int buf (1 + int (length (leb_bytes n))) (1 + int (length (leb_bytes n)) + int (length payload)) = payload"
    using slice_int_suffix[of "[h] @ leb_bytes n" payload] by (simp add: buf_def)
  have "parseOBU buf 0 = Inr (Some \<lparr>obu_type = nat ty, obu_size = int (length buf), obu_data = payload\<rparr>)"
    unfolding parseOBU_def
    apply (simp only: hb hd Let_def)
    apply (simp add: r sl)
    apply (simp add: buf_def)
    done
  with c show ?thesis by blast
qed

text \<open>
  C6. Parsing \<open>createOBU type payload\<close> is claimed to give the type and the payload back
  for every payload. The size field is written by \<open>writeLeb128\<close>, so for a payload of
  \<open>2 ^ 31\<close> bytes \<open>createOBU\<close> does not return; for shorter payloads the round trip
  holds (lemma \<open>parseOBU_createOBU_below_2_pow_31\<close>).
\<close>

theorem createOBU_payload_2147483648_never_returns:
  "createOBU_default 1 (replicate 2147483648 0) = None"
  unfolding createOBU_default_def createOBU_def
  using writeLeb128_never_returns[of 2147483648] by simp

lemma readLeb128_loop_errors:
  "readLeb128_loop data offset v bytes = Inl e \<Longrightarrow> e = UnexpectedEndOfData \<or> e = Leb128TooLarge"
proof (induction data offset v bytes rule: readLeb128_loop.induct)
  case (1 data offset v bytes)
  from "1.prems" show ?case
    apply (subst (asm) readLeb128_loop.simps)
    apply (simp only: Let_def split: if_splits)
    using "1.IH" by auto
qed

text \<open>
  C8. At an offset inside the buffer, \<open>parseOBU\<close> fails with \<open>InvalidOBU\<close> when the top
  bit of the header byte is set, and does not fail with \<open>InvalidOBU\<close> when it is clear.
\<close>

theorem parseOBU_forbidden_bit:
  assumes "0 \<le> offset" "offset < int (length data)"
  shows "(data ! nat offset AND 0x80 \<noteq> 0 \<longrightarrow> parseOBU data offset = Inl InvalidOBU)
       \<and> (data ! nat offset AND 0x80 = 0 \<longrightarrow> parseOBU data offset \<noteq> Inl InvalidOBU)"
proof -
  have b: "byte_at data offset = data ! nat offset" using assms by (simp add: byte_at_def)
  have "readLeb128 data k \<noteq> Inl InvalidOBU" for k
    using readLeb128_loop_errors[of data k 0 0 InvalidOBU] by (auto simp add: readLeb128_def)
  then show ?thesis
    using assms by (auto simp add: parseOBU_def b Let_def split: sum.splits prod.splits)
qed


theorem parseOBU_forbidden_bit_witness:
  "(0 :: int) \<le> 0 \<and> (0 :: int) < int (length [0x80 :: byte])
   \<and> parseOBU [0x80] 0 = Inl InvalidOBU
   \<and> (0 :: int) \<le> 1 \<and> (1 :: int) < int (length [0x80, 0x0A, 0x00 :: byte])
   \<and> parseOBU [0x80, 0x0A, 0x00] 1 \<noteq> Inl InvalidOBU"
  using parseOBU_forbidden_bit[of 0 "[0x80]"] parseOBU_forbidden_bit[of 1 "[0x80, 0x0A, 0x00]"]
  by simp

subsection \<open>Sequence header\<close>

lemma stream_bit_le1: "stream_bit data i \<le> 1"
  by (simp add: stream_bit_def)

lemma bit_to_nat: "unat (drop_bit k (b :: byte) AND 1) = (if bit b k then 1 else 0)"
proof -
  have "drop_bit k b AND 1 = (if bit b k then 1 else 0)"
    by (rule bit_word_eqI) (auto simp add: bit_simps bit_1_iff intro: gr0I)
  then show ?thesis by simp
qed

lemma readBit_at:
  assumes "reader_at data p r"
  shows "\<exists>r'. readBit r = (stream_bit data p, r') \<and> reader_at data (Suc p) r'"
proof (cases "rd_pos r < length data")
  case True
  with assms have d: "rd_data r = data" and b: "rd_bitPos r < 8" and p: "rd_pos r * 8 + rd_bitPos r = p"
    by (auto simp add: reader_at_def)
  have pd: "p div 8 = rd_pos r" and pm: "p mod 8 = rd_bitPos r" using b p by auto
  show ?thesis
    using True b p
    by (auto simp add: readBit_def d Let_def bit_to_nat stream_bit_def pd pm reader_at_def)
next
  case False
  with assms have d: "rd_data r = data" and e: "rd_pos r = length data" "rd_bitPos r = 0" "8 * length data \<le> p"
    by (auto simp add: reader_at_def)
  have "\<not> p div 8 < length data" using e by auto
  then show ?thesis
    using e by (auto simp add: readBit_def d stream_bit_def reader_at_def)
qed

lemma unat_shift_or:
  assumes "unat (v :: 32 word) < 2 ^ 31" "b \<le> 1"
  shows "unat (push_bit 1 v OR of_nat b) = 2 * unat v + b"
proof -
  have e: "push_bit 1 v OR (of_nat b :: 32 word) = 2 * v + of_nat b"
  proof (cases "b = 0")
    case True then show ?thesis by simp
  next
    case False
    with assms(2) have "b = 1" by simp
    then show ?thesis by (simp add: or_one_eq)
  qed
  have "unat (2 * v + of_nat b) = (2 * unat v + b) mod 2 ^ 32"
    using assms(2) by (simp add: unat_word_ariths unsigned_of_nat take_bit_eq_mod mod_simps)
  also have "\<dots> = 2 * unat v + b" using assms by simp
  finally show ?thesis unfolding e .
qed

lemma foldl_bits_bound:
  "a < 2 ^ k \<Longrightarrow> foldl (\<lambda>acc i. 2 * acc + stream_bit data i) a [p ..< p + n] < 2 ^ (k + n)"
proof (induction n arbitrary: a p k)
  case 0 then show ?case by simp
next
  case (Suc n)
  have u: "[p ..< p + Suc n] = p # [Suc p ..< Suc p + n]" by (simp add: upt_rec)
  have "2 * a + stream_bit data p < 2 ^ Suc k"
    using Suc.prems stream_bit_le1[of data p] by simp
  from Suc.IH[OF this, of "Suc p"] show ?case unfolding u by simp
qed

lemma readBits_loop_at:
  assumes "reader_at data p r" "unat v < 2 ^ k" "k + n \<le> 32"
  shows "\<exists>r'. readBits_loop n v r = (of_nat (foldl (\<lambda>acc i. 2 * acc + stream_bit data i) (unat v) [p ..< p + n]), r')
             \<and> reader_at data (p + n) r'"
  using assms
proof (induction n arbitrary: v p r k)
  case 0
  then show ?case by simp
next
  case (Suc n)
  have u: "[p ..< p + Suc n] = p # [Suc p ..< Suc p + n]" by (simp add: upt_rec)
  from readBit_at[OF Suc.prems(1)] obtain r1 where
    r1: "readBit r = (stream_bit data p, r1)" "reader_at data (Suc p) r1" by blast
  have "(2::nat) ^ k \<le> 2 ^ 31" using Suc.prems(3) by (intro power_increasing) auto
  then have v31: "unat v < 2 ^ 31" using Suc.prems(2) by linarith
  have uv: "unat (push_bit 1 v OR of_nat (stream_bit data p)) = 2 * unat v + stream_bit data p"
    using v31 stream_bit_le1 by (rule unat_shift_or)
  have "2 * unat v + stream_bit data p < 2 ^ Suc k"
    using Suc.prems(2) stream_bit_le1[of data p] by simp
  then have b: "unat (push_bit 1 v OR of_nat (stream_bit data p)) < 2 ^ Suc k"
    by (simp only: uv)
  from Suc.IH[OF r1(2) b] Suc.prems(3)
  obtain r' where "readBits_loop n (push_bit 1 v OR of_nat (stream_bit data p)) r1
       = (of_nat (foldl (\<lambda>acc i. 2 * acc + stream_bit data i) (2 * unat v + stream_bit data p) [Suc p ..< Suc p + n]), r')"
     "reader_at data (Suc p + n) r'"
    unfolding uv by auto
  then show ?case
    unfolding u by (simp add: r1(1))
qed

lemma readBits_at:
  assumes "reader_at data p r" "n \<le> 31"
  shows "\<exists>r'. readBits n r = (int (bit_field data p n), r') \<and> reader_at data (p + n) r'"
proof -
  from readBits_loop_at[OF assms(1), of 0 0 n] assms(2)
  obtain r' where r': "readBits_loop n 0 r = (of_nat (bit_field data p n), r')" "reader_at data (p + n) r'"
    by (auto simp add: bit_field_def)
  have "bit_field data p n < 2 ^ (0 + n)"
    unfolding bit_field_def by (rule foldl_bits_bound) simp
  also have "(2::nat) ^ (0 + n) \<le> 2 ^ 31" using assms(2) by (intro power_increasing) auto
  finally have lt: "bit_field data p n < 2 ^ 31" .
  have "sint (of_nat (bit_field data p n) :: 32 word) = int (bit_field data p n)"
    using sint_word_of_int_small[of "int (bit_field data p n)"] lt by simp
  then show ?thesis using r' by (simp add: readBits_def)
qed

lemma bit_field_bound: "bit_field data p n < 2 ^ n"
  using foldl_bits_bound[of 0 0 data p n] by (simp add: bit_field_def)

lemma reader_at_new: "reader_at data 0 (newBitReader data)"
  by (auto simp add: reader_at_def newBitReader_def)

lemma parseSequenceHeader_reduced_fields:
  assumes "stream_bit data 4 = 1"
  shows "reducedStillPictureHeader (parseSequenceHeader data)"
    and "maxFrameWidth (parseSequenceHeader data)
           = int (bit_field data 18 (bit_field data 10 4 + 1)) + 1"
    and "maxFrameHeight (parseSequenceHeader data)
           = int (bit_field data (18 + (bit_field data 10 4 + 1)) (bit_field data 14 4 + 1)) + 1"
proof -
  define fw where "fw = bit_field data 10 4"
  define fh where "fh = bit_field data 14 4"
  have fwb: "fw < 16" and fhb: "fh < 16"
    using bit_field_bound[of data 10 4] bit_field_bound[of data 14 4] by (simp_all add: fw_def fh_def)
  from readBits_at[OF reader_at_new, of 3 data] obtain r1 where
    r1: "readBits 3 (newBitReader data) = (int (bit_field data 0 3), r1)" "reader_at data 3 r1" by auto
  from readBit_at[OF r1(2)] obtain r2 where
    r2: "readBit r1 = (stream_bit data 3, r2)" "reader_at data 4 r2" by (auto simp add: eval_nat_numeral)
  from readBit_at[OF r2(2)] obtain r3 where
    r3: "readBit r2 = (1, r3)" "reader_at data 5 r3" using assms by (auto simp add: eval_nat_numeral)
  from readBits_at[OF r3(2), of 5] obtain a1 where
    a1: "readBits 5 r3 = (int (bit_field data 5 5), a1)" "reader_at data 10 a1" by auto
  from readBits_at[OF a1(2), of 4] obtain a2 where
    a2: "readBits 4 a1 = (int fw, a2)" "reader_at data 14 a2" by (auto simp add: fw_def)
  from readBits_at[OF a2(2), of 4] obtain a3 where
    a3: "readBits 4 a2 = (int fh, a3)" "reader_at data 18 a3" by (auto simp add: fh_def)
  from readBits_at[OF a3(2), of "fw + 1"] fwb obtain a4 where
    a4: "readBits (fw + 1) a3 = (int (bit_field data 18 (fw + 1)), a4)" "reader_at data (18 + (fw + 1)) a4" by auto
  from readBits_at[OF a4(2), of "fh + 1"] fhb obtain a5 where
    a5: "readBits (fh + 1) a4 = (int (bit_field data (18 + (fw + 1)) (fh + 1)), a5)" by auto
  have n1: "nat (int fw + 1) = fw + 1" and n2: "nat (int fh + 1) = fh + 1" by simp_all
  show "reducedStillPictureHeader (parseSequenceHeader data)"
    by (simp add: parseSequenceHeader_def Let_def r1 r2 r3 a1 a2 a3 a4[simplified] a5[simplified] n1 n2 split: prod.splits)
  show "maxFrameWidth (parseSequenceHeader data) = int (bit_field data 18 (bit_field data 10 4 + 1)) + 1"
    unfolding fw_def[symmetric]
    by (simp add: parseSequenceHeader_def Let_def r1 r2 r3 a1 a2 a3 a4[simplified] a5[simplified] n1 n2 split: prod.splits)
  show "maxFrameHeight (parseSequenceHeader data)
           = int (bit_field data (18 + (bit_field data 10 4 + 1)) (bit_field data 14 4 + 1)) + 1"
    unfolding fw_def[symmetric] fh_def[symmetric]
    by (simp add: parseSequenceHeader_def Let_def r1 r2 r3 a1 a2 a3 a4[simplified] a5[simplified] n1 n2 split: prod.splits)
qed

text \<open>
  C7. When the reduced-still-picture flag (bit 4 of the stream) is set, the 5-bit level
  index occupies bits 5 to 9, \<open>frameWidthBitsMinus1\<close> is the 4-bit field at bit 10 and
  \<open>frameHeightBitsMinus1\<close> the 4-bit field at bit 14; the width is the field of
  \<open>frameWidthBitsMinus1 + 1\<close> bits that follows, plus 1, and the height is the field of
  \<open>frameHeightBitsMinus1 + 1\<close> bits after that, plus 1. In particular the fields 10, 10,
  1919 and 1079 decode to 1920 by 1080.
\<close>

theorem parseSequenceHeader_reduced_dimensions:
  assumes "stream_bit data 4 = 1"
  shows "maxFrameWidth (parseSequenceHeader data)
           = int (bit_field data 18 (bit_field data 10 4 + 1)) + 1
       \<and> maxFrameHeight (parseSequenceHeader data)
           = int (bit_field data (18 + (bit_field data 10 4 + 1)) (bit_field data 14 4 + 1)) + 1
       \<and> (bit_field data 10 4 = 10 \<and> bit_field data 14 4 = 10
            \<and> bit_field data 18 11 = 1919 \<and> bit_field data 29 11 = 1079
          \<longrightarrow> maxFrameWidth (parseSequenceHeader data) = 1920
            \<and> maxFrameHeight (parseSequenceHeader data) = 1080)"
  using parseSequenceHeader_reduced_fields(2,3)[OF assms] by auto

theorem parseSequenceHeader_reduced_dimensions_witness:
  "stream_bit [0x18, 0x2A, 0xBB, 0xFC, 0x37] 4 = 1
   \<and> bit_field [0x18, 0x2A, 0xBB, 0xFC, 0x37] 10 4 = 10
   \<and> bit_field [0x18, 0x2A, 0xBB, 0xFC, 0x37] 14 4 = 10
   \<and> bit_field [0x18, 0x2A, 0xBB, 0xFC, 0x37] 18 11 = 1919
   \<and> bit_field [0x18, 0x2A, 0xBB, 0xFC, 0x37] 29 11 = 1079
   \<and> maxFrameWidth (parseSequenceHeader [0x18, 0x2A, 0xBB, 0xFC, 0x37]) = 1920
   \<and> maxFrameHeight (parseSequenceHeader [0x18, 0x2A, 0xBB, 0xFC, 0x37]) = 1080"
proof -
  have h: "stream_bit [0x18, 0x2A, 0xBB, 0xFC, 0x37] 4 = 1" by code_simp
  have f1: "bit_field [0x18, 0x2A, 0xBB, 0xFC, 0x37] 10 4 = 10" by code_simp
  have f2: "bit_field [0x18, 0x2A, 0xBB, 0xFC, 0x37] 14 4 = 10" by code_simp
  have f3: "bit_field [0x18, 0x2A, 0xBB, 0xFC, 0x37] 18 11 = 1919" by code_simp
  have f4: "bit_field [0x18, 0x2A, 0xBB, 0xFC, 0x37] 29 11 = 1079" by code_simp
  from parseSequenceHeader_reduced_dimensions[OF h] h f1 f2 f3 f4 show ?thesis by blast
qed

lemma readBit_le1: "fst (readBit r) \<le> 1"
  by (simp add: readBit_def Let_def bit_to_nat)

lemma readBits_loop_bound:
  "unat v < 2 ^ k \<Longrightarrow> k + n \<le> 32 \<Longrightarrow> unat (fst (readBits_loop n v r)) < 2 ^ (k + n)"
proof (induction n arbitrary: v r k)
  case 0
  then show ?case by simp
next
  case (Suc n)
  obtain b r' where br: "readBit r = (b, r')" by (cases "readBit r")
  have b1: "b \<le> 1" using readBit_le1[of r] by (simp add: br)
  have "(2::nat) ^ k \<le> 2 ^ 31" using Suc.prems(2) by (intro power_increasing) auto
  then have v31: "unat v < 2 ^ 31" using Suc.prems(1) by linarith
  have uv: "unat (push_bit 1 v OR of_nat b) = 2 * unat v + b"
    using v31 b1 by (rule unat_shift_or)
  have "2 * unat v + b < 2 ^ Suc k" using Suc.prems(1) b1 by simp
  then have "unat (push_bit 1 v OR of_nat b) < 2 ^ Suc k" by (simp only: uv)
  from Suc.IH[OF this, of r'] Suc.prems(2) show ?case by (simp add: br)
qed

lemma readBits_range:
  assumes "n \<le> 31"
  shows "0 \<le> fst (readBits n r)" and "fst (readBits n r) < 2 ^ n"
proof -
  define v where "v = fst (readBits_loop n 0 r)"
  have b: "unat v < 2 ^ n"
    using readBits_loop_bound[of 0 0 n r] assms by (simp add: v_def)
  also have "(2::nat) ^ n \<le> 2 ^ 31" using assms by (intro power_increasing) auto
  finally have "unat v < 2 ^ 31" .
  then have "int (unat v) < int (2 ^ 31)" by (simp only: of_nat_less_iff)
  then have lt: "int (unat v) < 2 ^ 31" by simp
  have "sint v = int (unat v)"
    using sint_word_of_int_small[of "int (unat v)"] lt by simp
  moreover have "fst (readBits n r) = sint v"
    by (simp add: readBits_def v_def case_prod_beta)
  ultimately have e: "fst (readBits n r) = int (unat v)" by simp
  show "0 \<le> fst (readBits n r)" unfolding e by simp
  from b have "int (unat v) < int (2 ^ n)" by (simp only: of_nat_less_iff)
  then show "fst (readBits n r) < 2 ^ n" unfolding e by simp
qed

lemma frame_dimension_range:
  "1 \<le> fst (readBits (nat (fst (readBits 4 a) + 1)) b) + 1
   \<and> fst (readBits (nat (fst (readBits 4 a) + 1)) b) + 1 \<le> 65536"
proof -
  define m where "m = nat (fst (readBits 4 a) + 1)"
  have "0 \<le> fst (readBits 4 a)" "fst (readBits 4 a) < 2 ^ 4"
    by (rule readBits_range, simp)+
  then have m16: "m \<le> 16" by (simp add: m_def)
  then have m31: "m \<le> 31" by simp
  have "(2::int) ^ m \<le> 2 ^ 16" using m16 by (intro power_increasing) auto
  with readBits_range[OF m31, of b] show ?thesis unfolding m_def[symmetric] by simp
qed

lemma parseSequenceHeader_dimension_range:
  "1 \<le> maxFrameWidth (parseSequenceHeader data) \<and> maxFrameWidth (parseSequenceHeader data) \<le> 65536
   \<and> 1 \<le> maxFrameHeight (parseSequenceHeader data) \<and> maxFrameHeight (parseSequenceHeader data) \<le> 65536"
  using frame_dimension_range
  by (simp add: parseSequenceHeader_def Let_def case_prod_beta)

subsection \<open>Frame decoding\<close>

lemma length_fold_paint: "length (fold paint is xs) = length xs"
  by (induction "is" arbitrary: xs) (simp_all add: paint_def)

lemma fold_paint_alpha:
  "n * 4 \<le> length xs \<Longrightarrow> i < n \<Longrightarrow> fold paint [0 ..< n] xs ! (i * 4 + 3) = 255"
proof (induction n arbitrary: i)
  case 0 then show ?case by simp
next
  case (Suc n)
  define ys where "ys = fold paint [0 ..< n] xs"
  have ly: "length ys = length xs" by (simp add: ys_def length_fold_paint)
  have e: "fold paint [0 ..< Suc n] xs = paint n ys" by (simp add: ys_def)
  show ?case
  proof (cases "i = n")
    case True
    then show ?thesis unfolding e using Suc.prems ly by (simp add: paint_def)
  next
    case False
    with Suc.prems have "i < n" by simp
    then have "ys ! (i * 4 + 3) = 255" unfolding ys_def using Suc.prems(1) by (intro Suc.IH) simp_all
    moreover have "i * 4 + 3 < n * 4" using \<open>i < n\<close> by simp
    ultimately show ?thesis unfolding e by (simp add: paint_def)
  qed
qed

lemma decodeFrame_returns:
  assumes "0 \<le> maxFrameWidth sh * maxFrameHeight sh * 4"
    and "maxFrameWidth sh * maxFrameHeight sh * 4 \<le> int maxByteLength"
  shows "\<exists>pixels. decodeFrame maxByteLength payload sh = Inr pixels"
  using assms by (simp add: decodeFrame_def Let_def not_less mult.commute)

lemma decodeFrame_pixels:
  assumes "decodeFrame maxByteLength payload sh = Inr pixels"
  shows "int (length pixels) = maxFrameWidth sh * maxFrameHeight sh * 4"
    and "\<forall>i. i * 4 + 3 < length pixels \<longrightarrow> pixels ! (i * 4 + 3) = 255"
    and "maxFrameWidth sh * maxFrameHeight sh * 4 \<le> int maxByteLength"
proof -
  define np where "np = maxFrameWidth sh * maxFrameHeight sh"
  from assms have nn: "0 \<le> np * 4" and lim: "np * 4 \<le> int maxByteLength"
    and px: "pixels = fold paint [0 ..< nat np] (replicate (nat (np * 4)) 0)"
    by (auto simp add: decodeFrame_def Let_def np_def mult.commute not_less split: if_splits)
  have len: "length pixels = nat (np * 4)" by (simp add: px length_fold_paint)
  show "int (length pixels) = maxFrameWidth sh * maxFrameHeight sh * 4"
    using len nn by (simp add: np_def)
  show "maxFrameWidth sh * maxFrameHeight sh * 4 \<le> int maxByteLength"
    using lim by (simp add: np_def)
  have n4: "nat (np * 4) = nat np * 4" using nn by (simp add: nat_mult_distrib)
  show "\<forall>i. i * 4 + 3 < length pixels \<longrightarrow> pixels ! (i * 4 + 3) = 255"
  proof (intro allI impI)
    fix i assume "i * 4 + 3 < length pixels"
    then have "i < nat np" unfolding len n4 by simp
    then show "pixels ! (i * 4 + 3) = 255"
      unfolding px by (intro fold_paint_alpha) (simp_all add: n4)
  qed
qed

text \<open>
  C10. Returning is claimed to be the same as an input that holds a sequence-header OBU
  and a frame OBU. For the stream whose reduced sequence header declares 65536 by 65536
  pixels, followed by a frame OBU, \<open>parseOBUs\<close> gives both OBUs, and \<open>decodeAV1\<close> in a
  runtime whose largest array has \<open>2 ^ 32\<close> bytes fails with the range error of the
  refused array of \<open>2 ^ 34\<close> bytes.
\<close>

theorem decodeAV1_65536_square_counterexample:
  "parseOBUs [0x0A, 7, 0x18, 0x3F, 0xFF, 0xFF, 0xFF, 0xFF, 0xC0, 0x32, 1, 0]
     = Some (Inr [\<lparr>obu_type = 1, obu_size = 9, obu_data = [0x18, 0x3F, 0xFF, 0xFF, 0xFF, 0xFF, 0xC0]\<rparr>,
                  \<lparr>obu_type = 6, obu_size = 3, obu_data = [0]\<rparr>])
   \<and> maxFrameWidth (parseSequenceHeader [0x18, 0x3F, 0xFF, 0xFF, 0xFF, 0xFF, 0xC0]) = 65536
   \<and> maxFrameHeight (parseSequenceHeader [0x18, 0x3F, 0xFF, 0xFF, 0xFF, 0xFF, 0xC0]) = 65536
   \<and> decodeAV1 4294967296 [0x0A, 7, 0x18, 0x3F, 0xFF, 0xFF, 0xFF, 0xFF, 0xC0, 0x32, 1, 0]
       = Some (Inl RangeError)"
proof -
  have p: "parseOBUs [0x0A, 7, 0x18, 0x3F, 0xFF, 0xFF, 0xFF, 0xFF, 0xC0, 0x32, 1, 0]
     = Some (Inr [\<lparr>obu_type = 1, obu_size = 9, obu_data = [0x18, 0x3F, 0xFF, 0xFF, 0xFF, 0xFF, 0xC0]\<rparr>,
                  \<lparr>obu_type = 6, obu_size = 3, obu_data = [0]\<rparr>])"
    by code_simp
  have w: "maxFrameWidth (parseSequenceHeader [0x18, 0x3F, 0xFF, 0xFF, 0xFF, 0xFF, 0xC0]) = 65536"
    by code_simp
  have h: "maxFrameHeight (parseSequenceHeader [0x18, 0x3F, 0xFF, 0xFF, 0xFF, 0xFF, 0xC0]) = 65536"
    by code_simp
  have df: "decodeFrame 4294967296 [0] (parseSequenceHeader [0x18, 0x3F, 0xFF, 0xFF, 0xFF, 0xFF, 0xC0])
       = Inl RangeError"
    unfolding decodeFrame_def Let_def w h by simp
  have d: "decodeAV1 4294967296 [0x0A, 7, 0x18, 0x3F, 0xFF, 0xFF, 0xFF, 0xFF, 0xC0, 0x32, 1, 0]
       = Some (Inl RangeError)"
    unfolding decodeAV1_def p Let_def by (simp add: SEQUENCE_HEADER_def FRAME_def df)
  from p w h d show ?thesis by blast
qed

text \<open>
  C10, as the code has it. \<open>decodeAV1\<close> returns an image exactly when \<open>parseOBUs\<close> returns
  an OBU list that holds a sequence-header OBU and a frame OBU and the runtime grants an
  array of \<open>maxFrameWidth * maxFrameHeight * 4\<close> bytes. The image then has the width and
  height of the sequence header, a pixel buffer of exactly that many bytes whose every
  fourth byte (the alpha byte of each pixel) is 255, and \<open>hasAlpha\<close> false.
\<close>

theorem decodeAV1_returns_image:
  "(parseOBUs data = Some (Inr obus)
      \<and> find (\<lambda>obu. obu_type obu = SEQUENCE_HEADER) obus = Some seqHeaderOBU
      \<and> find (\<lambda>obu. obu_type obu = FRAME) obus = Some frameOBU
      \<and> maxFrameWidth (parseSequenceHeader (obu_data seqHeaderOBU))
          * maxFrameHeight (parseSequenceHeader (obu_data seqHeaderOBU)) * 4 \<le> int maxByteLength
    \<longrightarrow> (\<exists>img. decodeAV1 maxByteLength data = Some (Inr img)))
   \<and> (decodeAV1 maxByteLength data = Some (Inr img)
    \<longrightarrow> (\<exists>obus' seqHeaderOBU' frameOBU'.
           parseOBUs data = Some (Inr obus')
         \<and> find (\<lambda>obu. obu_type obu = SEQUENCE_HEADER) obus' = Some seqHeaderOBU'
         \<and> find (\<lambda>obu. obu_type obu = FRAME) obus' = Some frameOBU'
         \<and> maxFrameWidth (parseSequenceHeader (obu_data seqHeaderOBU'))
             * maxFrameHeight (parseSequenceHeader (obu_data seqHeaderOBU')) * 4 \<le> int maxByteLength
         \<and> img_width img = maxFrameWidth (parseSequenceHeader (obu_data seqHeaderOBU'))
         \<and> img_height img = maxFrameHeight (parseSequenceHeader (obu_data seqHeaderOBU'))
         \<and> int (length (img_data img)) = img_width img * img_height img * 4
         \<and> (\<forall>i. i * 4 + 3 < length (img_data img) \<longrightarrow> img_data img ! (i * 4 + 3) = 255)
         \<and> \<not> img_hasAlpha img))"
proof (intro conjI impI)
  assume a: "parseOBUs data = Some (Inr obus)
      \<and> find (\<lambda>obu. obu_type obu = SEQUENCE_HEADER) obus = Some seqHeaderOBU
      \<and> find (\<lambda>obu. obu_type obu = FRAME) obus = Some frameOBU
      \<and> maxFrameWidth (parseSequenceHeader (obu_data seqHeaderOBU))
          * maxFrameHeight (parseSequenceHeader (obu_data seqHeaderOBU)) * 4 \<le> int maxByteLength"
  define sh where "sh = parseSequenceHeader (obu_data seqHeaderOBU)"
  have "1 \<le> maxFrameWidth sh" "1 \<le> maxFrameHeight sh"
    using parseSequenceHeader_dimension_range[of "obu_data seqHeaderOBU"] by (simp_all add: sh_def)
  then have "0 \<le> maxFrameWidth sh * maxFrameHeight sh * 4" by simp
  moreover from a have "maxFrameWidth sh * maxFrameHeight sh * 4 \<le> int maxByteLength"
    by (simp add: sh_def)
  ultimately obtain pixels where "decodeFrame maxByteLength (obu_data frameOBU) sh = Inr pixels"
    using decodeFrame_returns by blast
  with a show "\<exists>img. decodeAV1 maxByteLength data = Some (Inr img)"
    by (simp add: decodeAV1_def Let_def sh_def)
next
  assume r: "decodeAV1 maxByteLength data = Some (Inr img)"
  from r obtain obus where o: "parseOBUs data = Some (Inr obus)"
    by (auto simp add: decodeAV1_def split: option.splits sum.splits)
  from r o obtain sho where s: "find (\<lambda>obu. obu_type obu = SEQUENCE_HEADER) obus = Some sho"
    by (auto simp add: decodeAV1_def split: option.splits sum.splits)
  from r o s obtain fo where f: "find (\<lambda>obu. obu_type obu = FRAME) obus = Some fo"
    by (auto simp add: decodeAV1_def Let_def split: option.splits sum.splits)
  from r o s f obtain pixels where
    p: "decodeFrame maxByteLength (obu_data fo) (parseSequenceHeader (obu_data sho)) = Inr pixels"
    and i: "img = \<lparr>img_data = pixels,
                     img_width = maxFrameWidth (parseSequenceHeader (obu_data sho)),
                     img_height = maxFrameHeight (parseSequenceHeader (obu_data sho)),
                     img_hasAlpha = False,
                     img_bitDepth = bitDepth (parseSequenceHeader (obu_data sho))\<rparr>"
    by (auto simp add: decodeAV1_def Let_def split: option.splits sum.splits)
  from decodeFrame_pixels[OF p] o s f
  show "\<exists>obus' seqHeaderOBU' frameOBU'.
           parseOBUs data = Some (Inr obus')
         \<and> find (\<lambda>obu. obu_type obu = SEQUENCE_HEADER) obus' = Some seqHeaderOBU'
         \<and> find (\<lambda>obu. obu_type obu = FRAME) obus' = Some frameOBU'
         \<and> maxFrameWidth (parseSequenceHeader (obu_data seqHeaderOBU'))
             * maxFrameHeight (parseSequenceHeader (obu_data seqHeaderOBU')) * 4 \<le> int maxByteLength
         \<and> img_width img = maxFrameWidth (parseSequenceHeader (obu_data seqHeaderOBU'))
         \<and> img_height img = maxFrameHeight (parseSequenceHeader (obu_data seqHeaderOBU'))
         \<and> int (length (img_data img)) = img_width img * img_height img * 4
         \<and> (\<forall>i. i * 4 + 3 < length (img_data img) \<longrightarrow> img_data img ! (i * 4 + 3) = 255)
         \<and> \<not> img_hasAlpha img"
    by (simp add: i)
qed

theorem decodeAV1_returns_image_witness:
  "parseOBUs [0x0A, 3, 0x18, 0x00, 0x20, 0x32, 1, 0]
     = Some (Inr [\<lparr>obu_type = 1, obu_size = 5, obu_data = [0x18, 0x00, 0x20]\<rparr>,
                  \<lparr>obu_type = 6, obu_size = 3, obu_data = [0]\<rparr>])
   \<and> find (\<lambda>obu. obu_type obu = SEQUENCE_HEADER)
          [\<lparr>obu_type = 1, obu_size = 5, obu_data = [0x18, 0x00, 0x20]\<rparr>,
           \<lparr>obu_type = 6, obu_size = 3, obu_data = [0]\<rparr>]
       = Some \<lparr>obu_type = 1, obu_size = 5, obu_data = [0x18, 0x00, 0x20]\<rparr>
   \<and> find (\<lambda>obu. obu_type obu = FRAME)
          [\<lparr>obu_type = 1, obu_size = 5, obu_data = [0x18, 0x00, 0x20]\<rparr>,
           \<lparr>obu_type = 6, obu_size = 3, obu_data = [0]\<rparr>]
       = Some \<lparr>obu_type = 6, obu_size = 3, obu_data = [0]\<rparr>
   \<and> maxFrameWidth (parseSequenceHeader [0x18, 0x00, 0x20])
       * maxFrameHeight (parseSequenceHeader [0x18, 0x00, 0x20]) * 4 \<le> int 8
   \<and> decodeAV1 8 [0x0A, 3, 0x18, 0x00, 0x20, 0x32, 1, 0]
       = Some (Inr \<lparr>img_data = [128, 128, 128, 255, 128, 128, 128, 255], img_width = 2,
                    img_height = 1, img_hasAlpha = False, img_bitDepth = 8\<rparr>)
   \<and> int (length [128, 128, 128, 255, 128, 128, 128, 255 :: byte]) = 2 * 1 * 4"
proof -
  have p: "parseOBUs [0x0A, 3, 0x18, 0x00, 0x20, 0x32, 1, 0]
     = Some (Inr [\<lparr>obu_type = 1, obu_size = 5, obu_data = [0x18, 0x00, 0x20]\<rparr>,
                  \<lparr>obu_type = 6, obu_size = 3, obu_data = [0]\<rparr>])"
    by code_simp
  have s: "find (\<lambda>obu. obu_type obu = SEQUENCE_HEADER)
          [\<lparr>obu_type = 1, obu_size = 5, obu_data = [0x18, 0x00, 0x20]\<rparr>,
           \<lparr>obu_type = 6, obu_size = 3, obu_data = [0]\<rparr>]
       = Some \<lparr>obu_type = 1, obu_size = 5, obu_data = [0x18, 0x00, 0x20]\<rparr>"
    by (simp add: SEQUENCE_HEADER_def)
  have f: "find (\<lambda>obu. obu_type obu = FRAME)
          [\<lparr>obu_type = 1, obu_size = 5, obu_data = [0x18, 0x00, 0x20]\<rparr>,
           \<lparr>obu_type = 6, obu_size = 3, obu_data = [0]\<rparr>]
       = Some \<lparr>obu_type = 6, obu_size = 3, obu_data = [0]\<rparr>"
    by (simp add: FRAME_def)
  have w: "maxFrameWidth (parseSequenceHeader [0x18, 0x00, 0x20]) = 2" by code_simp
  have h: "maxFrameHeight (parseSequenceHeader [0x18, 0x00, 0x20]) = 1" by code_simp
  have l: "maxFrameWidth (parseSequenceHeader [0x18, 0x00, 0x20])
       * maxFrameHeight (parseSequenceHeader [0x18, 0x00, 0x20]) * 4 \<le> int 8"
    by (simp add: w h)
  have d: "decodeAV1 8 [0x0A, 3, 0x18, 0x00, 0x20, 0x32, 1, 0]
       = Some (Inr \<lparr>img_data = [128, 128, 128, 255, 128, 128, 128, 255], img_width = 2,
                    img_height = 1, img_hasAlpha = False, img_bitDepth = 8\<rparr>)"
    by code_simp
  from decodeAV1_returns_image[of "[0x0A, 3, 0x18, 0x00, 0x20, 0x32, 1, 0]" _ _ _ 8
         "\<lparr>img_data = [128, 128, 128, 255, 128, 128, 128, 255], img_width = 2,
                    img_height = 1, img_hasAlpha = False, img_bitDepth = 8\<rparr>"]
    p s f l d show ?thesis by simp
qed

subsection \<open>The box parser\<close>

lemma slice_nat_eq: "slice_nat data s e = take (e - s) (drop s data)"
  by (auto simp add: slice_nat_def slice_int_def Let_def min_def nat_diff_distrib' intro: take_all)

lemma round_double_small: "n < 2 ^ 53 \<Longrightarrow> round_double n = n"
  by (simp add: round_double_def)

lemma num_add_small: "a + b < 2 ^ 53 \<Longrightarrow> num_add a b = a + b"
  by (simp add: num_add_def round_double_small)

lemma parseISOBMFF_short: "length buffer \<le> 8 \<Longrightarrow> parseISOBMFF buffer = Some (Inr [])"
  unfolding parseISOBMFF_def by (subst parseISOBMFF_loop.simps) simp

lemma parseISOBMFF_loop_exit:
  "\<not> int offset < int (length buffer) - 8 \<Longrightarrow> parseISOBMFF_loop buffer offset boxes = Some (Inr boxes)"
  by (subst parseISOBMFF_loop.simps) simp

lemma parseISOBMFF_loop_step:
  assumes "int offset < int (length buffer) - 8"
    and "readBoxHeader buffer offset = Inr (ty, boxSize, headerSize)"
  shows "parseISOBMFF_loop buffer offset boxes =
     (let data = slice_nat buffer (offset + headerSize) (num_add offset boxSize)
      in if isContainerBox ty then
           Option.bind (parseISOBMFF data) (\<lambda>r.
             case r of
               Inl e \<Rightarrow> Some (Inl e)
             | Inr children \<Rightarrow>
                 parseISOBMFF_loop buffer (num_add offset boxSize)
                   (boxes @ [Box ty boxSize offset data (Some children)]))
         else
           parseISOBMFF_loop buffer (num_add offset boxSize)
             (boxes @ [Box ty boxSize offset data None]))"
  by (subst parseISOBMFF_loop.simps) (simp add: assms parseISOBMFF_def Let_def)

lemma parseISOBMFF_loop_header_error:
  assumes "int offset < int (length buffer) - 8"
    and "readBoxHeader buffer offset = Inl e"
  shows "parseISOBMFF_loop buffer offset boxes = Some (Inl e)"
  by (subst parseISOBMFF_loop.simps) (simp add: assms)

lemma parseISOBMFF_loop_offsets:
  assumes "parseISOBMFF_loop buffer offset acc = Some (Inr boxes)"
    and "\<forall>b \<in> set acc. box_offset b + 8 < length buffer"
  shows "\<forall>b \<in> set boxes. box_offset b + 8 < length buffer"
proof -
  have "\<forall>boxes. r = Inr boxes \<longrightarrow> (\<forall>b \<in> set acc. box_offset b + 8 < length buffer)
          \<longrightarrow> (\<forall>b \<in> set boxes. box_offset b + 8 < length buffer)"
    if "parseISOBMFF_loop buffer offset acc = Some r" for r
  proof (rule parseISOBMFF_loop.raw_induct[where P = "\<lambda>buffer offset acc r.
            \<forall>boxes. r = Inr boxes \<longrightarrow> (\<forall>b \<in> set acc. box_offset b + 8 < length buffer)
              \<longrightarrow> (\<forall>b \<in> set boxes. box_offset b + 8 < length buffer)", OF _ that], goal_cases)
    case (1 loop buffer offset acc r)
    show ?case
    proof (cases "int offset < int (length buffer) - 8")
      case False
      with 1(2) show ?thesis by auto
    next
      case True
      then have ob: "offset + 8 < length buffer" by linarith
      show ?thesis
      proof (cases "readBoxHeader buffer offset")
        case (Inl e)
        with 1(2) True show ?thesis by auto
      next
        case (Inr h)
        obtain ty boxSize headerSize where h: "h = (ty, boxSize, headerSize)" by (cases h) auto
        define data where "data = slice_nat buffer (offset + headerSize) (num_add offset boxSize)"
        show ?thesis
        proof (cases "isContainerBox ty")
          case False
          with 1(2) True Inr h
          have "loop buffer (num_add offset boxSize) (acc @ [Box ty boxSize offset data None]) = Some r"
            by (simp add: Let_def data_def)
          from 1(1)[OF this] ob show ?thesis by auto
        next
          case c: True
          with 1(2) True Inr h
          have "Option.bind (loop data 0 []) (\<lambda>r0. case r0 of Inl e \<Rightarrow> Some (Inl e)
                  | Inr children \<Rightarrow> loop buffer (num_add offset boxSize)
                       (acc @ [Box ty boxSize offset data (Some children)])) = Some r"
            unfolding data_def by (simp add: Let_def)
          then obtain r0 where r0: "loop data 0 [] = Some r0"
            and k: "(case r0 of Inl e \<Rightarrow> Some (Inl e)
                  | Inr children \<Rightarrow> loop buffer (num_add offset boxSize)
                       (acc @ [Box ty boxSize offset data (Some children)])) = Some r"
            by (auto simp add: bind_eq_Some_conv)
          show ?thesis
          proof (cases r0)
            case (Inl e)
            with k show ?thesis by auto
          next
            case (Inr children)
            with k have "loop buffer (num_add offset boxSize)
                       (acc @ [Box ty boxSize offset data (Some children)]) = Some r" by simp
            from 1(1)[OF this] ob show ?thesis by auto
          qed
        qed
      qed
    qed
  qed
  from this[OF assms(1)] assms(2) show ?thesis by blast
qed

lemma parseISOBMFF_loop_errors:
  assumes "parseISOBMFF_loop buffer offset acc = Some (Inl e)"
  shows "e = RangeError"
proof -
  have he: "readBoxHeader b off = Inl e' \<Longrightarrow> e' = RangeError" for b off e'
    by (auto simp add: readBoxHeader_def bindE_def getUint32_def Let_def split: sum.splits if_splits)
  have "\<forall>e. r = Inl e \<longrightarrow> e = RangeError"
    if "parseISOBMFF_loop buffer offset acc = Some r" for r
  proof (rule parseISOBMFF_loop.raw_induct[where P = "\<lambda>buffer offset acc r.
            \<forall>e. r = Inl e \<longrightarrow> e = RangeError", OF _ that], goal_cases)
    case (1 loop buffer offset acc r)
    show ?case
    proof (cases "int offset < int (length buffer) - 8")
      case False
      with 1(2) show ?thesis by auto
    next
      case True
      show ?thesis
      proof (cases "readBoxHeader buffer offset")
        case (Inl e)
        with 1(2) True he[OF Inl] show ?thesis by auto
      next
        case (Inr h)
        obtain ty boxSize headerSize where h: "h = (ty, boxSize, headerSize)" by (cases h) auto
        define data where "data = slice_nat buffer (offset + headerSize) (num_add offset boxSize)"
        show ?thesis
        proof (cases "isContainerBox ty")
          case False
          with 1(2) True Inr h
          have "loop buffer (num_add offset boxSize) (acc @ [Box ty boxSize offset data None]) = Some r"
            by (simp add: Let_def data_def)
          from 1(1)[OF this] show ?thesis by auto
        next
          case c: True
          with 1(2) True Inr h
          have "Option.bind (loop data 0 []) (\<lambda>r0. case r0 of Inl e \<Rightarrow> Some (Inl e)
                  | Inr children \<Rightarrow> loop buffer (num_add offset boxSize)
                       (acc @ [Box ty boxSize offset data (Some children)])) = Some r"
            unfolding data_def by (simp add: Let_def)
          then obtain r0 where r0: "loop data 0 [] = Some r0"
            and k: "(case r0 of Inl e \<Rightarrow> Some (Inl e)
                  | Inr children \<Rightarrow> loop buffer (num_add offset boxSize)
                       (acc @ [Box ty boxSize offset data (Some children)])) = Some r"
            by (auto simp add: bind_eq_Some_conv)
          show ?thesis
          proof (cases r0)
            case (Inl e)
            with k 1(1)[OF r0] show ?thesis by auto
          next
            case (Inr children)
            with k have "loop buffer (num_add offset boxSize)
                       (acc @ [Box ty boxSize offset data (Some children)]) = Some r" by simp
            from 1(1)[OF this] show ?thesis by auto
          qed
        qed
      qed
    qed
  qed
  from this[OF assms] show ?thesis by blast
qed

lemma parseISOBMFF_loop_past_end:
  assumes "int offset < int (length buffer) - 8"
    and "readBoxHeader buffer offset = Inr (ty, boxSize, headerSize)"
    and "length buffer < num_add offset boxSize"
  shows "parseISOBMFF_loop buffer offset boxes =
     (if isContainerBox ty then
        (case parseISOBMFF (drop (offset + headerSize) buffer) of
           None \<Rightarrow> None
         | Some (Inl e) \<Rightarrow> Some (Inl e)
         | Some (Inr children) \<Rightarrow>
             Some (Inr (boxes @ [Box ty boxSize offset (drop (offset + headerSize) buffer) (Some children)])))
      else Some (Inr (boxes @ [Box ty boxSize offset (drop (offset + headerSize) buffer) None])))"
proof -
  have d: "slice_nat buffer (offset + headerSize) (num_add offset boxSize) = drop (offset + headerSize) buffer"
    using assms(3) by (simp add: slice_nat_eq)
  have x: "parseISOBMFF_loop buffer (num_add offset boxSize) bs = Some (Inr bs)" for bs
    using assms(3) by (intro parseISOBMFF_loop_exit) simp
  show ?thesis
    unfolding parseISOBMFF_loop_step[OF assms(1,2)] Let_def d x
    by (simp split: option.splits sum.splits)
qed

lemmas eval_simps = readBoxHeader_def bindE_def getUint32_def getUint16_def fromCharCode_def
  byte_at_def Let_def char_of_def bit_Suc_0_iff isContainerBox_def slice_nat_eq
  num_add_small

lemma round_double_2_64_minus_1: "round_double 18446744073709551615 = 18446744073709551616"
  by (simp add: round_double_def bit_length.simps Let_def)

lemma round_double_2_64: "round_double 18446744073709551616 = 18446744073709551616"
  by (simp add: round_double_def bit_length.simps Let_def)

lemma round_double_2_53_plus_1: "round_double 9007199254740993 = 9007199254740992"
  by (simp add: round_double_def bit_length.simps Let_def)

lemma read_sized_rounds:
  "read_sized [0x00,0x20,0x00,0x00, 0x00,0x00,0x00,0x01] 8 0 = Inr (9007199254740992, 8)"
  by (simp add: read_sized_def bindE_def getUint32_def num_add_def round_double_2_53_plus_1)

lemma readBoxHeader_cases:
  assumes "readBoxHeader buffer offset = Inr (ty, boxSize, headerSize)"
  shows "(getUint32 buffer offset = Inr 1 \<and> headerSize = 16
           \<and> (\<exists>highSize lowSize. getUint32 buffer (offset + 8) = Inr highSize
                 \<and> getUint32 buffer (offset + 12) = Inr lowSize
                 \<and> boxSize = round_double (highSize * 4294967296 + lowSize)))
       \<or> (getUint32 buffer offset = Inr 0 \<and> headerSize = 8 \<and> boxSize = length buffer - offset)
       \<or> (getUint32 buffer offset = Inr boxSize \<and> headerSize = 8 \<and> 2 \<le> boxSize)"
  using assms
  by (auto simp add: readBoxHeader_def bindE_def Let_def num_add_def split: sum.splits if_splits)

lemma ff_header:
  "readBoxHeader [0,0,0,1, 0x6D,0x64,0x61,0x74, 0xFF,0xFF,0xFF,0xFF, 0xFF,0xFF,0xFF,0xFF, 1,2,3] 0
     = Inr (''mdat'', 18446744073709551616, 16)"
  by (simp add: readBoxHeader_def bindE_def getUint32_def fromCharCode_def byte_at_def Let_def
        char_of_def bit_Suc_0_iff num_add_def round_double_2_64_minus_1)

text \<open>
  C4. \<open>parseISOBMFF\<close> is claimed to terminate on every buffer, a box with a 64-bit size
  of 0 included. On the 16 bytes of a large-size \<^verbatim>\<open>free\<close> box whose 64-bit size is 0,
  \<^verbatim>\<open>boxSize\<close> is 0, \<^verbatim>\<open>offset += boxSize\<close> leaves the cursor at 0, and the loop never
  ends: the parse returns nothing.
\<close>

theorem parseISOBMFF_zero_large_size_never_returns:
  "parseISOBMFF [0,0,0,1, 0x66,0x72,0x65,0x65, 0,0,0,0, 0,0,0,0] = None"
proof (rule ccontr)
  define B :: bytes where "B = [0,0,0,1, 0x66,0x72,0x65,0x65, 0,0,0,0, 0,0,0,0]"
  assume "parseISOBMFF [0,0,0,1, 0x66,0x72,0x65,0x65, 0,0,0,0, 0,0,0,0] \<noteq> None"
  then obtain r where r: "parseISOBMFF_loop B 0 [] = Some r"
    by (auto simp add: parseISOBMFF_def B_def)
  have hd: "readBoxHeader B 0 = Inr (''free'', 0, 16)"
    by (simp add: B_def readBoxHeader_def bindE_def getUint32_def fromCharCode_def byte_at_def
          Let_def char_of_def bit_Suc_0_iff num_add_def round_double_def)
  have z: "num_add 0 0 = 0" by (simp add: num_add_def round_double_def)
  have nc: "\<not> isContainerBox ''free''" by (simp add: isContainerBox_def)
  have "\<not> (buffer = B \<and> offset = 0)"
    if "parseISOBMFF_loop buffer offset acc = Some r'" for buffer offset acc r'
  proof (rule parseISOBMFF_loop.raw_induct[where P = "\<lambda>buffer offset acc r. \<not> (buffer = B \<and> offset = 0)", OF _ that], goal_cases)
    case (1 loop buffer offset acc r)
    show ?case
    proof
      assume a: "buffer = B \<and> offset = 0"
      from a have b: "buffer = B" and o: "offset = 0" by simp_all
      have l0: "int 0 < int (length B) - 8" by (simp add: B_def)
      from 1(2) have "loop B 0 (acc @ [Box ''free'' 0 0 (slice_nat B (0 + 16) (num_add 0 0)) None]) = Some r"
        unfolding b o by (simp only: l0 if_True hd sum.case prod.case Let_def nc if_False add_0 z)
      then have "\<exists>bs. loop B 0 bs = Some r" by blast
      then obtain bs where "loop B 0 bs = Some r" ..
      from 1(1)[OF this] show False by simp
    qed
  qed
  from this[OF r] show False by simp
qed

text \<open>
  C3. A box whose declared size runs past the end of the buffer is claimed to make
  \<open>parseISOBMFF\<close> fail. The parser has no such check: for a box declaring 100 bytes in a
  buffer of 12 it returns the box, with the four payload bytes that are there.
\<close>

theorem parseISOBMFF_oversized_box_counterexample:
  "parseISOBMFF [0,0,0,100, 0x6D,0x64,0x61,0x74, 1,2,3,4]
     = Some (Inr [Box ''mdat'' 100 0 [1,2,3,4] None])"
  by (simp add: parseISOBMFF_def parseISOBMFF_loop.simps eval_simps)

text \<open>
  C3, as the code has it. Any error of the parser is the range error of a
  \<^verbatim>\<open>DataView\<close> read. The size of a box is the 32-bit field; or, when that field is 1, the
  64-bit field as the code computes it, \<^verbatim>\<open>highSize * 0x100000000 + lowSize\<close> rounded to a
  double; or, when that field is 0, the rest of the buffer. When the loop stands at a box
  whose end, \<^verbatim>\<open>offset + boxSize\<close> as the code computes it, lies past the end of the
  buffer, the box is returned with that size and with the payload that the buffer holds,
  and it is the last box of its level; for a container type its children are parsed from
  that payload, and a failure of that parse is the result.
\<close>

theorem parseISOBMFF_box_past_end_is_clamped:
  "(parseISOBMFF_loop buffer offset boxes = Some (Inl e) \<longrightarrow> e = RangeError)
   \<and> (readBoxHeader buffer offset = Inr (ty, boxSize, headerSize) \<longrightarrow>
        (getUint32 buffer offset = Inr 1 \<and> headerSize = 16
           \<and> (\<exists>highSize lowSize. getUint32 buffer (offset + 8) = Inr highSize
                 \<and> getUint32 buffer (offset + 12) = Inr lowSize
                 \<and> boxSize = round_double (highSize * 4294967296 + lowSize)))
        \<or> (getUint32 buffer offset = Inr 0 \<and> headerSize = 8 \<and> boxSize = length buffer - offset)
        \<or> (getUint32 buffer offset = Inr boxSize \<and> headerSize = 8 \<and> 2 \<le> boxSize))
   \<and> (int offset < int (length buffer) - 8
        \<and> readBoxHeader buffer offset = Inr (ty, boxSize, headerSize)
        \<and> length buffer < num_add offset boxSize \<longrightarrow>
      parseISOBMFF_loop buffer offset boxes =
        (if isContainerBox ty then
           (case parseISOBMFF (drop (offset + headerSize) buffer) of
              None \<Rightarrow> None
            | Some (Inl e') \<Rightarrow> Some (Inl e')
            | Some (Inr children) \<Rightarrow>
                Some (Inr (boxes @ [Box ty boxSize offset (drop (offset + headerSize) buffer)
                                      (Some children)])))
         else Some (Inr (boxes @ [Box ty boxSize offset (drop (offset + headerSize) buffer) None]))))"
proof (intro conjI impI)
  assume "parseISOBMFF_loop buffer offset boxes = Some (Inl e)"
  then show "e = RangeError" by (rule parseISOBMFF_loop_errors)
next
  assume "readBoxHeader buffer offset = Inr (ty, boxSize, headerSize)"
  then show "(getUint32 buffer offset = Inr 1 \<and> headerSize = 16
           \<and> (\<exists>highSize lowSize. getUint32 buffer (offset + 8) = Inr highSize
                 \<and> getUint32 buffer (offset + 12) = Inr lowSize
                 \<and> boxSize = round_double (highSize * 4294967296 + lowSize)))
        \<or> (getUint32 buffer offset = Inr 0 \<and> headerSize = 8 \<and> boxSize = length buffer - offset)
        \<or> (getUint32 buffer offset = Inr boxSize \<and> headerSize = 8 \<and> 2 \<le> boxSize)"
    by (rule readBoxHeader_cases)
next
  assume a: "int offset < int (length buffer) - 8
        \<and> readBoxHeader buffer offset = Inr (ty, boxSize, headerSize)
        \<and> length buffer < num_add offset boxSize"
  then show "parseISOBMFF_loop buffer offset boxes =
        (if isContainerBox ty then
           (case parseISOBMFF (drop (offset + headerSize) buffer) of
              None \<Rightarrow> None
            | Some (Inl e') \<Rightarrow> Some (Inl e')
            | Some (Inr children) \<Rightarrow>
                Some (Inr (boxes @ [Box ty boxSize offset (drop (offset + headerSize) buffer)
                                      (Some children)])))
         else Some (Inr (boxes @ [Box ty boxSize offset (drop (offset + headerSize) buffer) None])))"
    by (intro parseISOBMFF_loop_past_end) simp_all
qed

theorem parseISOBMFF_box_past_end_is_clamped_witness:
  "parseISOBMFF_loop [0,0,0,1, 0x6D,0x64,0x61,0x74, 0,0,0,0] 0 [] = Some (Inl RangeError)
   \<and> int 0 < int (length [0,0,0,1, 0x6D,0x64,0x61,0x74, 0xFF,0xFF,0xFF,0xFF,
                                0xFF,0xFF,0xFF,0xFF, 1,2,3 :: byte]) - 8
   \<and> readBoxHeader [0,0,0,1, 0x6D,0x64,0x61,0x74, 0xFF,0xFF,0xFF,0xFF, 0xFF,0xFF,0xFF,0xFF, 1,2,3] 0
       = Inr (''mdat'', 18446744073709551616, 16)
   \<and> getUint32 [0,0,0,1, 0x6D,0x64,0x61,0x74, 0xFF,0xFF,0xFF,0xFF, 0xFF,0xFF,0xFF,0xFF, 1,2,3] 8
       = Inr 4294967295
   \<and> getUint32 [0,0,0,1, 0x6D,0x64,0x61,0x74, 0xFF,0xFF,0xFF,0xFF, 0xFF,0xFF,0xFF,0xFF, 1,2,3] 12
       = Inr 4294967295
   \<and> round_double (4294967295 * 4294967296 + 4294967295) = 18446744073709551616
   \<and> length [0,0,0,1, 0x6D,0x64,0x61,0x74, 0xFF,0xFF,0xFF,0xFF, 0xFF,0xFF,0xFF,0xFF, 1,2,3 :: byte]
       < num_add 0 18446744073709551616
   \<and> parseISOBMFF_loop
         [0,0,0,1, 0x6D,0x64,0x61,0x74, 0xFF,0xFF,0xFF,0xFF, 0xFF,0xFF,0xFF,0xFF, 1,2,3] 0 []
       = Some (Inr [Box ''mdat'' 18446744073709551616 0 [1,2,3] None])"
proof -
  have e: "parseISOBMFF_loop [0,0,0,1, 0x6D,0x64,0x61,0x74, 0,0,0,0] 0 [] = Some (Inl RangeError)"
    by (subst parseISOBMFF_loop.simps)
       (simp add: readBoxHeader_def bindE_def getUint32_def)
  have a: "int 0 < int (length [0,0,0,1, 0x6D,0x64,0x61,0x74, 0xFF,0xFF,0xFF,0xFF,
                                0xFF,0xFF,0xFF,0xFF, 1,2,3 :: byte]) - 8"
    by simp
  have g1: "getUint32 [0,0,0,1, 0x6D,0x64,0x61,0x74, 0xFF,0xFF,0xFF,0xFF, 0xFF,0xFF,0xFF,0xFF, 1,2,3] 8
       = Inr 4294967295"
    by (simp add: getUint32_def)
  have g2: "getUint32 [0,0,0,1, 0x6D,0x64,0x61,0x74, 0xFF,0xFF,0xFF,0xFF, 0xFF,0xFF,0xFF,0xFF, 1,2,3] 12
       = Inr 4294967295"
    by (simp add: getUint32_def)
  have r: "round_double (4294967295 * 4294967296 + 4294967295) = 18446744073709551616"
    using round_double_2_64_minus_1 by simp
  have c: "length [0,0,0,1, 0x6D,0x64,0x61,0x74, 0xFF,0xFF,0xFF,0xFF, 0xFF,0xFF,0xFF,0xFF, 1,2,3 :: byte]
       < num_add 0 18446744073709551616"
    by (simp add: num_add_def round_double_2_64)
  from parseISOBMFF_box_past_end_is_clamped[of
      "[0,0,0,1, 0x6D,0x64,0x61,0x74, 0xFF,0xFF,0xFF,0xFF, 0xFF,0xFF,0xFF,0xFF, 1,2,3]" 0 "[]"
      RangeError "''mdat''" 18446744073709551616 16]
    e a ff_header g1 g2 r c
  show ?thesis by (simp add: isContainerBox_def)
qed

text \<open>
  C9. The loop of \<open>parseISOBMFF\<close> runs only while the cursor is strictly before
  \<open>length buffer - 8\<close>: a buffer of 8 bytes or fewer gives the empty list without an
  error, every returned top-level box starts more than 8 bytes before the end, and so a
  box of size 8 that occupies the last 8 bytes of the buffer is never among the returned
  boxes.
\<close>

theorem parseISOBMFF_skips_last_8_bytes:
  "(length buffer \<le> 8 \<longrightarrow> parseISOBMFF buffer = Some (Inr []))
   \<and> (parseISOBMFF buffer = Some (Inr boxes)
        \<longrightarrow> (\<forall>b \<in> set boxes. box_offset b + 8 < length buffer))
   \<and> (parseISOBMFF (pre @ [0, 0, 0, 8, t1, t2, t3, t4]) = Some (Inr boxes')
        \<longrightarrow> (\<forall>b \<in> set boxes'. box_offset b < length pre))"
proof (intro conjI impI)
  assume "length buffer \<le> 8"
  then show "parseISOBMFF buffer = Some (Inr [])" by (rule parseISOBMFF_short)
next
  assume "parseISOBMFF buffer = Some (Inr boxes)"
  then show "\<forall>b \<in> set boxes. box_offset b + 8 < length buffer"
    unfolding parseISOBMFF_def by (rule parseISOBMFF_loop_offsets) simp
next
  assume "parseISOBMFF (pre @ [0, 0, 0, 8, t1, t2, t3, t4]) = Some (Inr boxes')"
  then have "\<forall>b \<in> set boxes'. box_offset b + 8 < length (pre @ [0, 0, 0, 8, t1, t2, t3, t4])"
    unfolding parseISOBMFF_def by (rule parseISOBMFF_loop_offsets) simp
  then show "\<forall>b \<in> set boxes'. box_offset b < length pre" by simp
qed

theorem parseISOBMFF_skips_last_8_bytes_witness:
  "length [0,0,0,8, 0x66,0x72,0x65,0x65 :: byte] \<le> 8
   \<and> parseISOBMFF [0,0,0,8, 0x66,0x72,0x65,0x65] = Some (Inr [])
   \<and> parseISOBMFF ([0,0,0,16, 0x66,0x74,0x79,0x70, 0x61,0x76,0x69,0x66, 0,0,0,0]
                     @ [0,0,0,8, 0x66,0x72,0x65,0x65])
       = Some (Inr [Box ''ftyp'' 16 0 [0x61,0x76,0x69,0x66, 0,0,0,0] None])
   \<and> box_offset (Box ''ftyp'' 16 0 [0x61,0x76,0x69,0x66, 0,0,0,0] None)
       < length [0,0,0,16, 0x66,0x74,0x79,0x70, 0x61,0x76,0x69,0x66, 0,0,0,0 :: byte]"
proof -
  have a: "length [0,0,0,8, 0x66,0x72,0x65,0x65 :: byte] \<le> 8" by simp
  have b: "parseISOBMFF ([0,0,0,16, 0x66,0x74,0x79,0x70, 0x61,0x76,0x69,0x66, 0,0,0,0]
                     @ [0,0,0,8, 0x66,0x72,0x65,0x65])
       = Some (Inr [Box ''ftyp'' 16 0 [0x61,0x76,0x69,0x66, 0,0,0,0] None])"
    by (simp add: parseISOBMFF_def parseISOBMFF_loop.simps eval_simps)
  from parseISOBMFF_skips_last_8_bytes[of "[0,0,0,8, 0x66,0x72,0x65,0x65]" "[]"
      "[0,0,0,16, 0x66,0x74,0x79,0x70, 0x61,0x76,0x69,0x66, 0,0,0,0]" "0x66" "0x72" "0x65" "0x65"
      "[Box ''ftyp'' 16 0 [0x61,0x76,0x69,0x66, 0,0,0,0] None]"] a b
  show ?thesis by simp
qed

subsection \<open>Item resolution\<close>

lemma alpha_name_parse: "parseISOBMFF alpha_name_file = Some (Inr alpha_name_boxes)"
  by (simp add: alpha_name_file_def alpha_name_boxes_def parseISOBMFF_def parseISOBMFF_loop.simps eval_simps)

lemma alpha_name_infe:
  "parseInfe [2,0,0,0, 0,2, 0,0, 0x61,0x76,0x30,0x31, 0x61,0x6C,0x70,0x68,0x61,0]
   = Inr \<lparr>info_itemId = 2, itemProtectionIndex = 0, itemType = ''av01'', itemName = ''alpha''\<rparr>"
  by (simp add: parseInfe_def eval_simps)

lemma alpha_name_iinf:
  "parseIinf (take 32 (drop 16 alpha_name_file))
   = Inr [\<lparr>info_itemId = 2, itemProtectionIndex = 0, itemType = ''av01'', itemName = ''alpha''\<rparr>]"
  by (simp add: alpha_name_file_def parseIinf_def eval_simps alpha_name_infe)

lemma getAvifInfo_isSequence:
  assumes "getAvifInfo boxes = Inr info"
  shows "info_isSequence info \<longleftrightarrow> (\<exists>box \<in> set boxes. box_type box = ''moov'')"
  using assms
  by (auto simp add: getAvifInfo_def bindE_def Let_def list_ex_iff split: option.splits sum.splits prod.splits)

text \<open>
  C5. \<open>hasAlpha\<close> is claimed to hold exactly when some \<^verbatim>\<open>iinf\<close> entry has type \<^verbatim>\<open>auxl\<close>
  or a name that contains \<^verbatim>\<open>alpha\<close> in any letter case. For the file whose only entry is
  named \<^verbatim>\<open>alpha\<close>, \<open>getAvifInfo\<close> returns \<open>hasAlpha = False\<close>, while \<open>getAlphaItemId\<close>
  on the same box tree finds that entry as the alpha item.
\<close>

theorem getAvifInfo_misses_lowercase_alpha:
  "parseISOBMFF alpha_name_file = Some (Inr alpha_name_boxes)
   \<and> parseIinf (take 32 (drop 16 alpha_name_file))
       = Inr [\<lparr>info_itemId = 2, itemProtectionIndex = 0, itemType = ''av01'', itemName = ''alpha''\<rparr>]
   \<and> getAvifInfo alpha_name_boxes
       = Inr \<lparr>info_width = 0, info_height = 0, info_hasAlpha = False, info_bitDepth = Some 8,
              info_colorSpace = ''srgb'', info_isSequence = False\<rparr>
   \<and> getAlphaItemId alpha_name_boxes = Inr (Some 2)"
proof -
  have i: "getAvifInfo alpha_name_boxes
       = Inr \<lparr>info_width = 0, info_height = 0, info_hasAlpha = False, info_bitDepth = Some 8,
              info_colorSpace = ''srgb'', info_isSequence = False\<rparr>"
    unfolding alpha_name_boxes_def
    by (simp add: getAvifInfo_def alpha_name_iinf bindE_def)
  have a: "getAlphaItemId alpha_name_boxes = Inr (Some 2)"
    unfolding alpha_name_boxes_def
    by (simp add: getAlphaItemId_def alpha_name_iinf bindE_def toLowerCase_def toLowerChar_def
          char_of_def bit_Suc_0_iff)
  from alpha_name_parse alpha_name_iinf i a show ?thesis by blast
qed












end
